theory Spec2Isabelle
  imports Main "HOL-Library.AList"
begin

section \<open>The offline service worker of sugarshock (src/service-worker.js)\<close>

text \<open>
  The worker mirrors the assets listed in a manifest into a Cache and records, in an
  IndexedDB object store, the digest each path was last synchronised with. This theory
  embeds the worker's functions and settles the properties stated about them.

  Strings are \<open>char list\<close>; every character the worker inspects (backslash, space,
  newline, full stop, slash, the letter n) is ASCII, so a character stands for one code
  unit of the JavaScript string.
\<close>

subsection \<open>JavaScript string methods used by the worker\<close>

abbreviation bslash :: char where
  "bslash \<equiv> CHR 0x5C"

abbreviation newline :: char where
  "newline \<equiv> CHR 0x0A"

text \<open>\<open>s.startsWith(pat)\<close>.\<close>

definition startsWith :: "string \<Rightarrow> string \<Rightarrow> bool" where
  "startsWith s pat = (take (length pat) s = pat)"

text \<open>\<open>s.includes(pat)\<close>: \<open>pat\<close> occurs in \<open>s\<close> as a run of adjacent characters.\<close>

fun includes_str :: "string \<Rightarrow> string \<Rightarrow> bool" where
  "includes_str [] pat = (pat = [])"
| "includes_str (c # cs) pat = (startsWith (c # cs) pat \<or> includes_str cs pat)"

text \<open>\<open>s.indexOf(pat)\<close>: the first position where \<open>pat\<close> starts, or -1.\<close>

fun indexOf_from :: "string \<Rightarrow> string \<Rightarrow> nat \<Rightarrow> int" where
  "indexOf_from [] pat i = (if pat = [] then int i else - 1)"
| "indexOf_from (c # cs) pat i =
     (if startsWith (c # cs) pat then int i else indexOf_from cs pat (Suc i))"

definition indexOf :: "string \<Rightarrow> string \<Rightarrow> int" where
  "indexOf s pat = indexOf_from s pat 0"

text \<open>
  \<open>s.slice(start, end)\<close> and \<open>s.slice(start)\<close>: a negative index counts from the end
  of the string, and both indices are clamped to the string.
\<close>

definition slice_index :: "nat \<Rightarrow> int \<Rightarrow> nat" where
  "slice_index n i = (if i < 0 then nat (max (int n + i) 0) else min (nat i) n)"

definition slice :: "string \<Rightarrow> int \<Rightarrow> int \<Rightarrow> string" where
  "slice s start stop =
     (let a = slice_index (length s) start; b = slice_index (length s) stop
      in take (b - a) (drop a s))"

definition slice_from :: "string \<Rightarrow> int \<Rightarrow> string" where
  "slice_from s start = drop (slice_index (length s) start) s"

text \<open>\<open>s.charAt(i)\<close>: the one-character string at \<open>i\<close>, or the empty string.\<close>

definition charAt :: "string \<Rightarrow> nat \<Rightarrow> string" where
  "charAt s i = (if i < length s then [s ! i] else [])"

text \<open>
  \<open>s.replaceAll(pat, rep)\<close> with a string pattern: one scan from the left, the
  occurrences replaced do not overlap, and the replacement text is not scanned again.
\<close>

fun replaceAll :: "string \<Rightarrow> string \<Rightarrow> string \<Rightarrow> string" where
  "replaceAll [] pat rep = (if pat = [] then rep else [])"
| "replaceAll (c # cs) pat rep =
     (if pat = [] then rep @ c # replaceAll cs pat rep
      else if startsWith (c # cs) pat
        then rep @ replaceAll (drop (length pat - 1) cs) pat rep
      else c # replaceAll cs pat rep)"

subsection \<open>The manifest parser\<close>

text \<open>
  An entry of the manifest, \<open>{ hash, path }\<close>. The same objects are stored in the index,
  where the sentinel record carries a \<open>lastModified\<close> property as well; a property that
  is absent or \<open>undefined\<close> is \<open>None\<close>.
\<close>

record asset_entry =
  hash :: string
  path :: string

record index_record = asset_entry +
  lastModified :: "string option"

text \<open>\<open>parseAssetIndexEntry(line)\<close>, lines 297 to 309.\<close>

definition parseAssetIndexEntry :: "string \<Rightarrow> asset_entry" where
  "parseAssetIndexEntry line =
     (let delimiterIndex = indexOf line ''  '';
          hash0 = slice line 0 delimiterIndex;
          path0 = slice_from line (delimiterIndex + 2);
          escaped = (charAt line 0 = [bslash]);
          hash1 = (if escaped then slice_from hash0 1 else hash0);
          path1 = (if escaped
                   then replaceAll (replaceAll path0 [bslash, CHR ''n''] [newline])
                          [bslash, bslash] [bslash]
                   else path0);
          path2 = (if \<not> startsWith path1 ''./'' then ''./'' @ path1 else path1)
      in \<lparr> hash = hash1, path = path2 \<rparr>)"

text \<open>The path as it is on the line: the text after the first two-space delimiter.\<close>

definition path_segment :: "string \<Rightarrow> string" where
  "path_segment line = slice_from line (indexOf line ''  '' + 2)"

subsection \<open>The platform: URLs, network, IndexedDB faults\<close>

text \<open>
  What the browser supplies is a parameter of the model. \<open>resolve\<close> is the URL a path
  resolves to against the scope, \<open>new URL(path, self.registration.scope)\<close>; the worker
  script is registered as \<open>./service-worker.js\<close> with scope \<open>./\<close>, so \<open>cache.add(path)\<close>
  resolves a path to the same URL. \<open>pathname\<close> is \<open>new URL(url).pathname\<close>. \<open>network\<close>
  gives the body of an ok response for a URL, or \<open>None\<close> when the fetch fails or the
  response is not ok (\<open>cache.add\<close> rejects in both cases). \<open>manifest_response\<close> is the
  answer to the manifest request for a given If-Modified-Since header, \<open>None\<close> when the
  fetch throws. \<open>sha256_hex\<close> is \<open>toHex(SHA-256(bytes))\<close>. \<open>idb_fails\<close> tells which
  IndexedDB requests end with an error event.
\<close>

datatype idb_op =
  OpOpen | OpGet string | OpPut string | OpDelete string | OpGetAllKeys | OpClear

record http_response =
  ok :: bool
  body :: string
  last_modified_header :: "string option"

record platform =
  scopePath :: string
  resolve :: "string \<Rightarrow> string"
  pathname :: "string \<Rightarrow> string"
  network :: "string \<Rightarrow> string option"
  manifest_response :: "string option \<Rightarrow> http_response option"
  sha256_hex :: "string \<Rightarrow> string"
  idb_fails :: "idb_op \<Rightarrow> bool"

subsection \<open>The state of the worker\<close>

text \<open>The manifest object \<open>{ hash, lastModified, entries }\<close> built by \<open>fetchAssetIndex\<close>.\<close>

record asset_index =
  index_hash :: string
  index_lastModified :: "string option"
  entries :: "asset_entry list"

datatype net_request =
  ManifestRequest "string option" | AssetRequest string | PassThrough string

datatype outcome = Fulfilled | Rejected string | Pending

text \<open>
  \<open>refreshCachePromise\<close> is the global of line 7, a handle on the promise of the cycle in
  flight. \<open>running\<close> lists the cycles whose \<open>refreshCache\<close> has been called and has not
  run to its end, with the arguments of the call; \<open>caught\<close> lists the promises on which
  the fetch handler has put its logging \<open>catch\<close>; \<open>outcomes\<close> records how each cycle
  ended. \<open>idb\<close> is the object store \<open>asset\<close>, keyed by \<open>path\<close>; \<open>cache\<close> is the Cache, keyed
  by URL, in the order of insertion. The logs record the requests sent to the network,
  the requests the fetch handler looked up with \<open>caches.match\<close>, and the messages given to
  \<open>console.error\<close>. \<open>stragglers\<close> lists the update tasks of rejected cycles that have
  not finished yet: a rejected \<open>Promise.all\<close> does not cancel the tasks it joined.
\<close>

record worker =
  refreshCachePromise :: "nat option"
  running :: "(nat \<times> asset_index option \<times> bool) list"
  promises :: nat
  caught :: "nat list"
  outcomes :: "(nat \<times> outcome) list"
  idb :: "(string \<times> index_record) list"
  cache :: "(string \<times> string) list"
  network_log :: "net_request list"
  match_log :: "string list"
  console :: "string list"
  stragglers :: "asset_entry list"

definition initial_worker :: worker where
  "initial_worker =
     \<lparr> refreshCachePromise = None, running = [], promises = 0, caught = [], outcomes = [],
       idb = [], cache = [], network_log = [], match_log = [], console = [],
       stragglers = [] \<rparr>"

definition IDB_KEY_OFFLINE_INDEX :: string where
  "IDB_KEY_OFFLINE_INDEX = ''offline-index.txt''"

definition console_error :: "string \<Rightarrow> worker \<Rightarrow> worker" where
  "console_error msg w = w\<lparr> console := console w @ [msg] \<rparr>"

subsection \<open>IndexedDB and Cache requests\<close>

text \<open>
  \<open>initOfflineAssetIndex\<close>, \<open>idbGet\<close>, \<open>idbPut\<close>, \<open>idbDelete\<close> (lines 169 to 250): each
  promise is rejected (\<open>Inl\<close>) when the request ends with an error event.
\<close>

definition initOfflineAssetIndex :: "platform \<Rightarrow> string + unit" where
  "initOfflineAssetIndex pf = (if idb_fails pf OpOpen then Inl ''open failed'' else Inr ())"

definition idbGet :: "platform \<Rightarrow> string \<Rightarrow> worker \<Rightarrow> string + index_record option" where
  "idbGet pf key w =
     (if idb_fails pf (OpGet key) then Inl ''get failed'' else Inr (map_of (idb w) key))"

definition idbPut :: "platform \<Rightarrow> index_record \<Rightarrow> worker \<Rightarrow> string + worker" where
  "idbPut pf v w =
     (if idb_fails pf (OpPut (path v)) then Inl ''put failed''
      else Inr (w\<lparr> idb := AList.update (path v) v (idb w) \<rparr>))"

definition idbDelete :: "platform \<Rightarrow> string \<Rightarrow> worker \<Rightarrow> string + worker" where
  "idbDelete pf key w =
     (if idb_fails pf (OpDelete key) then Inl ''delete failed''
      else Inr (w\<lparr> idb := AList.delete key (idb w) \<rparr>))"

text \<open>
  \<open>cache.put\<close> removes the entries that match the request and appends the new one;
  \<open>cache.add(path)\<close> fetches the URL of the path and puts an ok response.
\<close>

definition cache_put :: "string \<Rightarrow> string \<Rightarrow> (string \<times> string) list \<Rightarrow> (string \<times> string) list" where
  "cache_put url b c = AList.delete url c @ [(url, b)]"

definition cache_add :: "platform \<Rightarrow> string \<Rightarrow> worker \<Rightarrow> string option \<times> worker" where
  "cache_add pf p w =
     (let url = resolve pf p;
          w1 = w\<lparr> network_log := network_log w @ [AssetRequest url] \<rparr>
      in case network pf url of
           None \<Rightarrow> (Some ''fetch failed'', w1)
         | Some b \<Rightarrow> (None, w1\<lparr> cache := cache_put url b (cache w1) \<rparr>))"

subsection \<open>The manifest fetcher\<close>

text \<open>\<open>text.split\<close> on a one-character separator.\<close>

fun split_on :: "char \<Rightarrow> string \<Rightarrow> string list" where
  "split_on d [] = [[]]"
| "split_on d (c # cs) =
     (if c = d then [] # split_on d cs
      else (case split_on d cs of [] \<Rightarrow> [[c]] | x # xs \<Rightarrow> (c # x) # xs))"

text \<open>
  \<open>fetchAssetIndex(lastModified)\<close>, lines 255 to 292. The header is sent when
  \<open>lastModified\<close> is truthy, that is a non-empty string. Every failure gives \<open>null\<close>.
\<close>

definition fetchAssetIndex :: "platform \<Rightarrow> string option \<Rightarrow> worker \<Rightarrow> asset_index option \<times> worker" where
  "fetchAssetIndex pf lm w =
     (let header = (case lm of None \<Rightarrow> None | Some t \<Rightarrow> if t = [] then None else Some t);
          w1 = w\<lparr> network_log := network_log w @ [ManifestRequest header] \<rparr>
      in case manifest_response pf header of
           None \<Rightarrow> (None, w1)
         | Some response \<Rightarrow>
             if \<not> ok response then (None, w1)
             else
               let index = map parseAssetIndexEntry
                             (filter (\<lambda>line. length line > 0) (split_on newline (body response)));
                   index' = (case find (\<lambda>e. path e = ''./index.html'') index of
                               Some indexHtmlEntry \<Rightarrow>
                                 \<lparr> hash = hash indexHtmlEntry, path = ''./'' \<rparr> # index
                             | None \<Rightarrow> index)
               in (Some \<lparr> index_hash = sha256_hex pf (body response),
                          index_lastModified = last_modified_header response,
                          entries = index' \<rparr>, w1))"

subsection \<open>The refresh cycle\<close>

text \<open>
  \<open>Promise.all(xs.map(task))\<close>: every task is started. The tasks of one call work on
  the records of their own path, and the model lets them finish one after the other in
  the order of the list. The joined promise is fulfilled when all tasks have finished,
  and it is rejected as soon as one task is rejected; the tasks that have not finished by
  then are not cancelled, and are returned as the tasks still running.
\<close>

fun promise_all :: "('a \<Rightarrow> worker \<Rightarrow> string option \<times> worker) \<Rightarrow> 'a list \<Rightarrow> worker \<Rightarrow> string option \<times> 'a list \<times> worker" where
  "promise_all task [] w = (None, [], w)"
| "promise_all task (x # xs) w =
     (case task x w of
        (Some error, w1) \<Rightarrow> (Some error, xs, w1)
      | (None, w1) \<Rightarrow> promise_all task xs w1)"

text \<open>
  Lines 76 to 99, the keys of the store. On the error event the listener logs and reads
  \<open>event.source\<close>. The event of a request is a plain Event: it has \<open>target\<close> (the
  request, which has \<open>source\<close>) and no \<open>source\<close> of its own, so the read gives
  \<open>undefined\<close> and \<open>store.clear()\<close> throws inside the listener; neither \<open>resolve\<close> nor a
  rejection is reached and the promise stays pending (\<open>None\<close>). In the branch for a
  defined store, \<open>reject\<close> is not bound by the executor, which takes \<open>resolve\<close> only, so
  a failed clear throws in its listener as well.
\<close>

definition event_source :: "unit option" where
  "event_source = None"

definition getAllKeys :: "platform \<Rightarrow> worker \<Rightarrow> string list option \<times> worker" where
  "getAllKeys pf w =
     (if idb_fails pf OpGetAllKeys then
        (let w1 = console_error ''Failed to retrieve known asset entries:'' w
         in case event_source of
              None \<Rightarrow> (None, w1)
            | Some store \<Rightarrow>
                if idb_fails pf OpClear
                then (None, console_error ''Failed to clear asset store:'' w1)
                else (Some [], w1\<lparr> idb := [] \<rparr>))
      else (Some (map fst (idb w)), w))"

text \<open>Lines 101 to 109: drop the index record of a path whose body is not in the cache.\<close>

definition pruneMissing :: "platform \<Rightarrow> string \<Rightarrow> worker \<Rightarrow> string option \<times> worker" where
  "pruneMissing pf p w =
     (if map_of (cache w) (resolve pf p) = None then
        (case idbDelete pf p w of
           Inl error \<Rightarrow>
             (None, console_error
                ''Failed to delete asset index entry for missing cache entry:'' w)
         | Inr w1 \<Rightarrow> (None, w1))
      else (None, w))"

text \<open>\<open>updateOfflineAsset(entry, cache, db)\<close>, lines 154 to 163.\<close>

definition updateOfflineAsset :: "platform \<Rightarrow> asset_entry \<Rightarrow> worker \<Rightarrow> string option \<times> worker" where
  "updateOfflineAsset pf entry w =
     (case idbGet pf (path entry) w of
        Inl error \<Rightarrow> (Some error, w)
      | Inr currentEntry \<Rightarrow>
          if map_option hash currentEntry = Some (hash entry) then (None, w)
          else
            (case cache_add pf (path entry) w of
               (Some error, w1) \<Rightarrow> (Some error, w1)
             | (None, w1) \<Rightarrow>
                 (case idbPut pf \<lparr> hash = hash entry, path = path entry, lastModified = None \<rparr> w1 of
                    Inl error \<Rightarrow> (Some error, w1)
                  | Inr w2 \<Rightarrow> (None, w2))))"

text \<open>Lines 122 to 128: delete the index record of a path the manifest no longer lists.\<close>

definition deleteObsolete :: "platform \<Rightarrow> string \<Rightarrow> worker \<Rightarrow> string option \<times> worker" where
  "deleteObsolete pf p w =
     (case idbDelete pf p w of
        Inl error \<Rightarrow> (None, console_error ''Failed to delete obsolete asset index entry:'' w)
      | Inr w1 \<Rightarrow> (None, w1))"

text \<open>
  Lines 130 to 137: the path derived from a cached request, and the deletion of a cached
  request.
\<close>

definition derivedPath :: "platform \<Rightarrow> string \<Rightarrow> string" where
  "derivedPath pf url = ''./'' @ slice_from (pathname pf url) (int (length (scopePath pf)))"

definition cacheDelete :: "string \<Rightarrow> worker \<Rightarrow> string option \<times> worker" where
  "cacheDelete request w = (None, w\<lparr> cache := AList.delete request (cache w) \<rparr>)"

text \<open>
  \<open>refreshCache(cachedAssetIndex, offlineAssetIndexDB)\<close>, lines 66 to 146. The database
  argument is \<open>True\<close> when the caller passes an open database. The worker returned is
  the state at the moment the promise of the cycle settles; when the updates of lines 112
  to 116 are rejected, the update tasks that have not finished are left running.
\<close>

definition refreshCache :: "platform \<Rightarrow> asset_index option \<Rightarrow> bool \<Rightarrow> worker \<Rightarrow> outcome \<times> worker" where
  "refreshCache pf cachedAssetIndex offlineAssetIndexDB w =
     (case (case cachedAssetIndex of
              Some a \<Rightarrow> (Some a, w)
            | None \<Rightarrow> fetchAssetIndex pf None w) of
        (assetIndex, w0) \<Rightarrow>
          (case (if offlineAssetIndexDB then Inr () else initOfflineAssetIndex pf) of
             Inl error \<Rightarrow> (Rejected error, w0)
           | Inr offlineAssetIndex \<Rightarrow>
               (case assetIndex of
                  None \<Rightarrow> (Fulfilled, w0)
                | Some a \<Rightarrow>
                    (case getAllKeys pf w0 of
                       (None, w1) \<Rightarrow> (Pending, w1)
                     | (Some previouslyKnownEntries, w1) \<Rightarrow>
                         (case promise_all (pruneMissing pf) previouslyKnownEntries w1 of
                            (_, _, w2) \<Rightarrow>
                              (case promise_all (updateOfflineAsset pf) (entries a) w2 of
                                 (Some error, unfinished, w3) \<Rightarrow>
                                   (Rejected error,
                                    w3\<lparr> stragglers := stragglers w3 @ unfinished \<rparr>)
                               | (None, _, w3) \<Rightarrow>
                                   (let knownPaths = map path (entries a) in
                                    case promise_all (deleteObsolete pf)
                                           (filter (\<lambda>p. p \<notin> set knownPaths)
                                              previouslyKnownEntries) w3 of
                                      (_, _, w4) \<Rightarrow>
                                        (case promise_all cacheDelete
                                                (filter (\<lambda>request.
                                                     derivedPath pf request \<notin> set knownPaths)
                                                   (map fst (cache w4))) w4 of
                                           (_, _, w5) \<Rightarrow>
                                             (case idbPut pf
                                                     \<lparr> hash = index_hash a,
                                                       path = IDB_KEY_OFFLINE_INDEX,
                                                       lastModified = index_lastModified a \<rparr>
                                                     w5 of
                                                Inl error \<Rightarrow> (Rejected error, w5)
                                              | Inr w6 \<Rightarrow> (Fulfilled, w6))))))))))"

subsection \<open>The coordinator\<close>

text \<open>
  \<open>synchronizedRefreshCache\<close>, lines 52 to 60. With no cycle in flight it calls
  \<open>refreshCache\<close> and keeps the promise; in both cases it returns the promise kept.
\<close>

definition synchronizedRefreshCache :: "asset_index option \<Rightarrow> bool \<Rightarrow> worker \<Rightarrow> nat \<times> worker" where
  "synchronizedRefreshCache cachedAssetIndex offlineAssetIndexDB w =
     (case refreshCachePromise w of
        None \<Rightarrow>
          (promises w,
           w\<lparr> refreshCachePromise := Some (promises w),
              promises := Suc (promises w),
              running := running w @ [(promises w, cachedAssetIndex, offlineAssetIndexDB)] \<rparr>)
      | Some p \<Rightarrow> (p, w))"

text \<open>
  The promise of the cycle that runs settles: the steps the cycle has taken by then take
  effect; unless the promise stays pending, the \<open>finally\<close> callback of line 56 clears the
  global, and a rejection is logged if the fetch handler has put its \<open>catch\<close> on the
  promise (lines 39 to 41). The update tasks a rejected cycle has left running finish
  later, one at each event \<open>Straggler\<close>, when the global has been cleared already.
\<close>

definition settle :: "platform \<Rightarrow> worker \<Rightarrow> worker" where
  "settle pf w =
     (case running w of
        [] \<Rightarrow> w
      | (p, cachedAssetIndex, offlineAssetIndexDB) # rest \<Rightarrow>
          (case refreshCache pf cachedAssetIndex offlineAssetIndexDB w of
             (result, w1) \<Rightarrow>
               (let w2 = w1\<lparr> running := rest, outcomes := outcomes w1 @ [(p, result)] \<rparr>
                in case result of
                     Pending \<Rightarrow> w2
                   | Fulfilled \<Rightarrow> w2\<lparr> refreshCachePromise := None \<rparr>
                   | Rejected error \<Rightarrow>
                       (if p \<in> set (caught w2)
                        then console_error ''Failed to refresh offline cache:''
                               (w2\<lparr> refreshCachePromise := None \<rparr>)
                        else w2\<lparr> refreshCachePromise := None \<rparr>))))"

subsection \<open>The fetch handler\<close>

datatype response = FromNetwork string | FromCache string

text \<open>\<open>fetch(event.request)\<close>, and \<open>(await caches.match(request)) ?? fetch(event.request)\<close>.\<close>

definition fetch_request :: "string \<Rightarrow> worker \<Rightarrow> response \<times> worker" where
  "fetch_request request w =
     (FromNetwork request, w\<lparr> network_log := network_log w @ [PassThrough request] \<rparr>)"

definition cache_or_network :: "string \<Rightarrow> worker \<Rightarrow> response \<times> worker" where
  "cache_or_network request w =
     (let w1 = w\<lparr> match_log := match_log w @ [request] \<rparr>
      in case map_of (cache w) request of
           Some b \<Rightarrow> (FromCache b, w1)
         | None \<Rightarrow> fetch_request request w1)"

text \<open>
  The handler of lines 16 to 50, for the request with the given URL. After the
  \<open>try\<close> of lines 29 to 34 the database is \<open>False\<close> when it could not be opened, and
  \<open>cachedIndex\<close> is \<open>None\<close> when the sentinel is absent or could not be read.
\<close>

definition handleFetch :: "platform \<Rightarrow> string \<Rightarrow> worker \<Rightarrow> response \<times> worker" where
  "handleFetch pf request w =
     (let requestPath = pathname pf request in
      if refreshCachePromise w \<noteq> None then fetch_request request w
      else if slice_from requestPath (int (length (scopePath pf))) \<in> set [[], ''index.html'']
      then
        (case (case initOfflineAssetIndex pf of
                 Inl error \<Rightarrow>
                   (False, None, console_error ''Failed to retrieve offline index entry:'' w)
               | Inr db \<Rightarrow>
                   (case idbGet pf IDB_KEY_OFFLINE_INDEX w of
                      Inl error \<Rightarrow>
                        (True, None, console_error ''Failed to retrieve offline index entry:'' w)
                    | Inr r \<Rightarrow> (True, r, w))) of
           (offlineAssetIndexDB, cachedIndex, w1) \<Rightarrow>
             if offlineAssetIndexDB then
               (case fetchAssetIndex pf
                       (case cachedIndex of None \<Rightarrow> None | Some r \<Rightarrow> lastModified r) w1 of
                  (assetIndex, w2) \<Rightarrow>
                    (case assetIndex of
                       None \<Rightarrow> cache_or_network request w2
                     | Some a \<Rightarrow>
                         if Some (index_hash a) \<noteq> map_option hash cachedIndex then
                           (case synchronizedRefreshCache (Some a) True w2 of
                              (p, w3) \<Rightarrow>
                                fetch_request request (w3\<lparr> caught := caught w3 @ [p] \<rparr>))
                         else cache_or_network request w2))
             else cache_or_network request w1)
      else cache_or_network request w)"

subsection \<open>The events of the worker\<close>

text \<open>
  The worker is activated (lines 12 to 14), handles a fetch event, or sees the cycle
  that runs come to its end. A fetch event is handled in one step; since the handler
  awaits the index and the manifest before line 39, its call of
  \<open>synchronizedRefreshCache\<close> may also come later, between other events, which is the
  event \<open>Call\<close>. At the event \<open>Straggler\<close> the oldest update task left running by a
  rejected cycle finishes; its rejection, if any, has no handler left to reach. A run
  handles the events one after the other.
\<close>

datatype event =
  Activate | Fetch string | Call "asset_index option" bool | Settle | Straggler

definition step :: "platform \<Rightarrow> worker \<Rightarrow> event \<Rightarrow> worker" where
  "step pf w ev =
     (case ev of
        Activate \<Rightarrow> snd (synchronizedRefreshCache None False w)
      | Fetch request \<Rightarrow> snd (handleFetch pf request w)
      | Call cachedAssetIndex offlineAssetIndexDB \<Rightarrow>
          snd (synchronizedRefreshCache cachedAssetIndex offlineAssetIndexDB w)
      | Settle \<Rightarrow> settle pf w
      | Straggler \<Rightarrow>
          (case stragglers w of
             [] \<Rightarrow> w
           | entry # rest \<Rightarrow> (snd (updateOfflineAsset pf entry w))\<lparr> stragglers := rest \<rparr>))"

definition run :: "platform \<Rightarrow> event list \<Rightarrow> worker \<Rightarrow> worker" where
  "run pf evs w = foldl (step pf) w evs"

subsection \<open>Single flight\<close>

text \<open>
  The fields of the worker that the coordinator owns, and the property that at most one
  cycle runs and that it is the cycle of the promise kept in \<open>refreshCachePromise\<close>.
\<close>

definition coordination :: "worker \<Rightarrow> nat option \<times> (nat \<times> asset_index option \<times> bool) list \<times> nat \<times> nat list \<times> (nat \<times> outcome) list" where
  "coordination w = (refreshCachePromise w, running w, promises w, caught w, outcomes w)"

definition single_cycle :: "worker \<Rightarrow> bool" where
  "single_cycle w =
     (length (running w) \<le> 1 \<and> (\<forall>c \<in> set (running w). refreshCachePromise w = Some (fst c)))"

subsection \<open>Example platforms\<close>

text \<open>
  A deployment under \<open>/app/\<close> whose manifest lists \<open>a.js\<close> and \<open>b.js\<close>; URLs are written
  without their origin, and a relative path resolves to the scope followed by the path
  without its leading \<open>./\<close>. Everything succeeds on it.
\<close>

definition demo_platform :: platform where
  "demo_platform =
     \<lparr> scopePath = ''/app/'',
       resolve = (\<lambda>p. ''/app/'' @ (if startsWith p ''./'' then drop 2 p else p)),
       pathname = (\<lambda>url. url),
       network = (\<lambda>url. Some (''body of '' @ url)),
       manifest_response = (\<lambda>header. Some \<lparr> ok = True,
          body = ''11  a.js'' @ [newline] @ ''22  b.js'' @ [newline],
          last_modified_header = Some ''Monday'' \<rparr>),
       sha256_hex = (\<lambda>bytes. ''d1''),
       idb_fails = (\<lambda>op. False) \<rparr>"

text \<open>
  The same deployment where reading the sentinel record fails, where the database cannot
  be opened, and where the network is down.
\<close>

definition sentinel_fault_platform :: platform where
  "sentinel_fault_platform =
     demo_platform \<lparr> idb_fails := (\<lambda>op. op = OpGet IDB_KEY_OFFLINE_INDEX) \<rparr>"

definition open_fault_platform :: platform where
  "open_fault_platform = demo_platform \<lparr> idb_fails := (\<lambda>op. op = OpOpen) \<rparr>"

definition offline_platform :: platform where
  "offline_platform =
     demo_platform \<lparr> network := (\<lambda>url. None), manifest_response := (\<lambda>header. None) \<rparr>"

subsection \<open>The entry-point check\<close>

text \<open>
  The answer of \<open>(await caches.match(request)) ?? fetch(event.request)\<close> in a state, and
  the test of line 26 for a request to the navigation entry point.
\<close>

definition cached_or_fetched :: "string \<Rightarrow> worker \<Rightarrow> response" where
  "cached_or_fetched request w =
     (case map_of (cache w) request of Some b \<Rightarrow> FromCache b | None \<Rightarrow> FromNetwork request)"

definition is_entry_point :: "platform \<Rightarrow> string \<Rightarrow> bool" where
  "is_entry_point pf request =
     (slice_from (pathname pf request) (int (length (scopePath pf))) \<in> set [[], ''index.html''])"

subsection \<open>Paths, stored records and example states\<close>

text \<open>
  A path is stable under URL resolution when the path derived from its URL (line 133) is
  the path itself. Paths that the URL parser rewrites (a space, a backslash, a newline,
  a query) are not.
\<close>

definition url_stable :: "platform \<Rightarrow> string \<Rightarrow> bool" where
  "url_stable pf p = (derivedPath pf (resolve pf p) = p)"

text \<open>The sentinel record of lines 139 to 143, and the record stored for an entry.\<close>

definition sentinel_record :: "asset_index \<Rightarrow> index_record" where
  "sentinel_record a =
     \<lparr> hash = index_hash a, path = IDB_KEY_OFFLINE_INDEX, lastModified = index_lastModified a \<rparr>"

definition stored :: "asset_entry \<Rightarrow> index_record" where
  "stored entry = \<lparr> hash = hash entry, path = path entry, lastModified = None \<rparr>"

text \<open>
  The manifest of the example deployment, the manifest after \<open>b.js\<close> has been removed,
  and the state of the worker after the first cycle.
\<close>

definition demo_index :: asset_index where
  "demo_index =
     \<lparr> index_hash = ''d1'', index_lastModified = Some ''Monday'',
       entries = [\<lparr> hash = ''11'', path = ''./a.js'' \<rparr>, \<lparr> hash = ''22'', path = ''./b.js'' \<rparr>] \<rparr>"

definition demo_index_without_b :: asset_index where
  "demo_index_without_b =
     \<lparr> index_hash = ''d2'', index_lastModified = Some ''Tuesday'',
       entries = [\<lparr> hash = ''11'', path = ''./a.js'' \<rparr>] \<rparr>"

definition demo_converged :: worker where
  "demo_converged =
     initial_worker
       \<lparr> idb := [(''./a.js'', \<lparr> hash = ''11'', path = ''./a.js'', lastModified = None \<rparr>),
                  (''./b.js'', \<lparr> hash = ''22'', path = ''./b.js'', lastModified = None \<rparr>),
                  (''offline-index.txt'',
                   \<lparr> hash = ''d1'', path = ''offline-index.txt'', lastModified = Some ''Monday'' \<rparr>)],
         cache := [(''/app/a.js'', ''body of /app/a.js''), (''/app/b.js'', ''body of /app/b.js'')],
         network_log := [AssetRequest ''/app/a.js'', AssetRequest ''/app/b.js''] \<rparr>"

subsection \<open>The state of one entry during a cycle\<close>

text \<open>
  The digest comparison of line 156 fails for the entry: the index has no record of the
  path, or one with another digest.
\<close>

definition needs_update :: "asset_entry \<Rightarrow> worker \<Rightarrow> bool" where
  "needs_update e w = (map_option hash (map_of (idb w) (path e)) \<noteq> Some (hash e))"





subsection \<open>The converged state\<close>

text \<open>
  The state a cycle for a manifest leaves when everything succeeds: every entry has its
  digest recorded and its body cached; the index has no other record than the sentinel;
  every cached URL derives a path of the manifest; and the sentinel, written last, holds
  the digest and timestamp of the manifest.
\<close>

definition synced :: "platform \<Rightarrow> asset_index \<Rightarrow> worker \<Rightarrow> bool" where
  "synced pf m w =
     ((\<forall>e \<in> set (entries m).
          \<not> needs_update e w \<and> map_of (cache w) (resolve pf (path e)) \<noteq> None)
      \<and> (\<forall>k \<in> set (map fst (idb w)).
            k = IDB_KEY_OFFLINE_INDEX \<or> k \<in> set (map path (entries m)))
      \<and> (\<forall>url \<in> set (map fst (cache w)). derivedPath pf url \<in> set (map path (entries m)))
      \<and> IDB_KEY_OFFLINE_INDEX \<notin> set (map path (entries m))
      \<and> idb w \<noteq> []
      \<and> last (idb w) = (IDB_KEY_OFFLINE_INDEX, sentinel_record m)
      \<and> IDB_KEY_OFFLINE_INDEX \<notin> set (map fst (butlast (idb w))))"

text \<open>The example deployment where reading the keys of the store fails.\<close>

definition keys_fault_platform :: platform where
  "keys_fault_platform = demo_platform \<lparr> idb_fails := (\<lambda>op. op = OpGetAllKeys) \<rparr>"

text \<open>The body of an entry is in the cache.\<close>

definition cached :: "platform \<Rightarrow> asset_entry \<Rightarrow> worker \<Rightarrow> bool" where
  "cached pf e w = (map_of (cache w) (resolve pf (path e)) \<noteq> None)"

subsection \<open>A path that URL resolution rewrites\<close>

text \<open>
  The URL parser percent-encodes a space of a path, and \<open>pathname\<close> returns the encoded
  text. The example deployment with this resolution, a manifest that lists the file
  \<open>a b.js\<close> (the line \<open>11  a b.js\<close>), and the state the first cycle for it leaves.
\<close>

definition percent_encode :: "string \<Rightarrow> string" where
  "percent_encode s = replaceAll s '' '' ''%20''"

definition encoding_platform :: platform where
  "encoding_platform =
     demo_platform
       \<lparr> resolve := (\<lambda>p. ''/app/'' @ percent_encode (if startsWith p ''./'' then drop 2 p else p)) \<rparr>"

definition spaced_index :: asset_index where
  "spaced_index =
     \<lparr> index_hash = ''d3'', index_lastModified = Some ''Monday'',
       entries = [\<lparr> hash = ''11'', path = ''./a b.js'' \<rparr>, \<lparr> hash = ''22'', path = ''./b.js'' \<rparr>] \<rparr>"

definition spaced_first :: worker where
  "spaced_first =
     initial_worker
       \<lparr> idb := [(''./a b.js'', \<lparr> hash = ''11'', path = ''./a b.js'', lastModified = None \<rparr>),
                  (''./b.js'', \<lparr> hash = ''22'', path = ''./b.js'', lastModified = None \<rparr>),
                  (''offline-index.txt'',
                   \<lparr> hash = ''d3'', path = ''offline-index.txt'', lastModified = Some ''Monday'' \<rparr>)],
         cache := [(''/app/b.js'', ''body of /app/b.js'')],
         network_log := [AssetRequest ''/app/a%20b.js'', AssetRequest ''/app/b.js''] \<rparr>"

section \<open>Properties of the parser\<close>

lemma indexOf_from_delimiter:
  "CHR '' '' \<notin> set d \<Longrightarrow> indexOf_from (d @ ''  '' @ rest) ''  '' i = int (i + length d)"
  by (induction d arbitrary: i) (auto simp: startsWith_def)

lemma indexOf_escaped_line:
  assumes "CHR '' '' \<notin> set d"
  shows "indexOf (bslash # d @ ''  '' @ rest) ''  '' = int (Suc (length d))"
proof -
  have "indexOf_from (bslash # d @ ''  '' @ rest) ''  '' 0
          = indexOf_from (d @ ''  '' @ rest) ''  '' (Suc 0)"
    by (simp add: startsWith_def)
  then show ?thesis
    using indexOf_from_delimiter [OF assms, of rest "Suc 0"] by (simp add: indexOf_def)
qed

lemma includes_append_left: "includes_str s pat \<Longrightarrow> includes_str (pre @ s) pat"
  by (induction pre) auto

lemma includes_Cons_other:
  "c \<noteq> a \<Longrightarrow> includes_str (c # cs) [a, b] = includes_str cs [a, b]"
  by (simp add: startsWith_def)

text \<open>The first pass turns every backslash-backslash-n into backslash-newline.\<close>

lemma newline_pass_includes:
  "includes_str s [bslash, bslash, CHR ''n'']
     \<Longrightarrow> includes_str (replaceAll s [bslash, CHR ''n''] [newline]) [bslash, newline]"
proof (induction s "[bslash, CHR ''n'']" "[newline]" rule: replaceAll.induct)
  case 1
  then show ?case by simp
next
  case (2 c cs)
  show ?case
  proof (cases "startsWith (c # cs) [bslash, CHR ''n'']")
    case True
    then obtain rest where cs: "c = bslash" "cs = CHR ''n'' # rest"
      by (cases cs) (auto simp: startsWith_def)
    with "2.prems" have "includes_str rest [bslash, bslash, CHR ''n'']"
      by (auto simp: startsWith_def)
    with True cs "2.hyps"(2) show ?thesis by (simp add: startsWith_def)
  next
    case False
    show ?thesis
    proof (cases "startsWith (c # cs) [bslash, bslash, CHR ''n'']")
      case True
      then obtain rest where cs: "c = bslash" "cs = bslash # CHR ''n'' # rest"
        by (cases cs; cases "tl cs") (auto simp: startsWith_def)
      then show ?thesis by (simp add: startsWith_def)
    next
      case nopre: False
      with "2.prems" have "includes_str cs [bslash, bslash, CHR ''n'']" by simp
      with False "2.hyps"(3) show ?thesis by simp
    qed
  qed
qed

text \<open>The second pass keeps a backslash in front of every newline that has one.\<close>

lemma backslash_pass_head:
  "replaceAll (c # cs) [bslash, bslash] [bslash] = c # tl (replaceAll (c # cs) [bslash, bslash] [bslash])"
  by (auto simp: startsWith_def)

lemma backslash_pass_includes:
  "includes_str s [bslash, newline]
     \<Longrightarrow> includes_str (replaceAll s [bslash, bslash] [bslash]) [bslash, newline]"
proof (induction s "[bslash, bslash]" "[bslash]" rule: replaceAll.induct)
  case 1
  then show ?case by simp
next
  case (2 c cs)
  show ?case
  proof (cases "startsWith (c # cs) [bslash, bslash]")
    case True
    then obtain rest where cs: "c = bslash" "cs = bslash # rest"
      by (cases cs) (auto simp: startsWith_def)
    show ?thesis
    proof (cases rest)
      case Nil
      with cs "2.prems" show ?thesis by (simp add: startsWith_def)
    next
      case (Cons d ds)
      show ?thesis
      proof (cases "d = newline")
        case True
        with cs Cons show ?thesis by (simp add: startsWith_def)
      next
        case False
        with cs Cons "2.prems" have "includes_str rest [bslash, newline]"
          by (simp add: startsWith_def)
        with cs \<open>startsWith (c # cs) [bslash, bslash]\<close> "2.hyps"(2) show ?thesis
          by (simp add: startsWith_def)
      qed
    qed
  next
    case False
    show ?thesis
    proof (cases "startsWith (c # cs) [bslash, newline]")
      case True
      then obtain rest where cs: "c = bslash" "cs = newline # rest"
        by (cases cs) (auto simp: startsWith_def)
      then show ?thesis by (simp add: startsWith_def)
    next
      case nopre: False
      with "2.prems" have "includes_str cs [bslash, newline]" by simp
      with False "2.hyps"(3) show ?thesis by simp
    qed
  qed
qed

text \<open>Neither pass leaves a backslash in front of the letter n.\<close>

lemma newline_pass_head:
  "startsWith (replaceAll s [bslash, CHR ''n''] [newline]) [CHR ''n'']
     \<Longrightarrow> startsWith s [CHR ''n'']"
  by (cases s) (auto simp: startsWith_def split: if_splits)

lemma newline_pass_excludes:
  "\<not> includes_str (replaceAll s [bslash, CHR ''n''] [newline]) [bslash, CHR ''n'']"
proof (induction s "[bslash, CHR ''n'']" "[newline]" rule: replaceAll.induct)
  case 1
  then show ?case by simp
next
  case (2 c cs)
  show ?case
  proof (cases "startsWith (c # cs) [bslash, CHR ''n'']")
    case True
    with "2.hyps"(2) show ?thesis by (simp add: startsWith_def)
  next
    case False
    have "\<not> startsWith (c # replaceAll cs [bslash, CHR ''n''] [newline]) [bslash, CHR ''n'']"
    proof
      assume a: "startsWith (c # replaceAll cs [bslash, CHR ''n''] [newline]) [bslash, CHR ''n'']"
      then have "c = bslash" and "startsWith (replaceAll cs [bslash, CHR ''n''] [newline]) [CHR ''n'']"
        by (auto simp: startsWith_def)
      then have "startsWith (c # cs) [bslash, CHR ''n'']"
        using newline_pass_head [of cs] by (auto simp: startsWith_def)
      with False show False by simp
    qed
    with False "2.hyps"(3) show ?thesis by simp
  qed
qed

lemma backslash_pass_first:
  "startsWith (replaceAll s [bslash, bslash] [bslash]) [CHR ''n''] \<Longrightarrow> startsWith s [CHR ''n'']"
  by (cases s) (auto simp: startsWith_def split: if_splits)

lemma backslash_pass_excludes:
  "\<not> includes_str s [bslash, CHR ''n'']
     \<Longrightarrow> \<not> includes_str (replaceAll s [bslash, bslash] [bslash]) [bslash, CHR ''n'']"
proof (induction s "[bslash, bslash]" "[bslash]" rule: replaceAll.induct)
  case 1
  then show ?case by simp
next
  case (2 c cs)
  from "2.prems" have nohead: "\<not> startsWith (c # cs) [bslash, CHR ''n'']"
    and notail: "\<not> includes_str cs [bslash, CHR ''n'']" by simp_all
  show ?case
  proof (cases "startsWith (c # cs) [bslash, bslash]")
    case True
    then obtain rest where cs: "c = bslash" "cs = bslash # rest"
      by (cases cs) (auto simp: startsWith_def)
    from notail cs have a: "\<not> startsWith rest [CHR ''n'']" and b: "\<not> includes_str rest [bslash, CHR ''n'']"
      by (auto simp: startsWith_def)
    from b True cs "2.hyps"(2)
    have "\<not> includes_str (replaceAll rest [bslash, bslash] [bslash]) [bslash, CHR ''n'']"
      by simp
    moreover from a have "\<not> startsWith (replaceAll rest [bslash, bslash] [bslash]) [CHR ''n'']"
      using backslash_pass_first [of rest] by blast
    ultimately show ?thesis using cs by (simp add: startsWith_def)
  next
    case False
    have "\<not> startsWith (c # replaceAll cs [bslash, bslash] [bslash]) [bslash, CHR ''n'']"
    proof
      assume "startsWith (c # replaceAll cs [bslash, bslash] [bslash]) [bslash, CHR ''n'']"
      then have "c = bslash" and "startsWith (replaceAll cs [bslash, bslash] [bslash]) [CHR ''n'']"
        by (auto simp: startsWith_def)
      then have "startsWith (c # cs) [bslash, CHR ''n'']"
        using backslash_pass_first [of cs] by (auto simp: startsWith_def)
      with nohead show False by simp
    qed
    with False notail "2.hyps"(3) show ?thesis by simp
  qed
qed

lemma decoded_path:
  "charAt line 0 = [bslash] \<Longrightarrow>
   path (parseAssetIndexEntry line) =
     (let p = replaceAll (replaceAll (path_segment line) [bslash, CHR ''n''] [newline])
                [bslash, bslash] [bslash]
      in if startsWith p ''./'' then p else ''./'' @ p)"
  by (simp add: parseAssetIndexEntry_def path_segment_def Let_def)

text \<open>
  C9. The escaped manifest line made of a backslash, a digest, the two-space delimiter
  and the segment path, backslash, n, with, backslash, backslash, escapes is parsed into
  the digest and the path that starts with ./ and holds a real newline after path and one
  backslash before escapes. The digest is any text without a space, as a hexadecimal
  digest is, so that the delimiter is the first two spaces of the line.
\<close>

theorem parser_round_trip:
  assumes "CHR '' '' \<notin> set digest"
  shows "parseAssetIndexEntry
           (bslash # digest @ ''  '' @ ''path'' @ [bslash, CHR ''n''] @ ''with''
              @ [bslash, bslash] @ ''escapes'')
         = \<lparr> hash = digest,
             path = ''./path'' @ [newline] @ ''with'' @ [bslash] @ ''escapes'' \<rparr>"
proof -
  let ?rest = "''path'' @ [bslash, CHR ''n''] @ ''with'' @ [bslash, bslash] @ ''escapes''"
  let ?line = "bslash # digest @ ''  '' @ ?rest"
  have idx: "indexOf ?line ''  '' = int (Suc (length digest))"
    using indexOf_escaped_line [OF assms, of ?rest] by simp
  have n: "nat (1 + int (length digest)) = Suc (length digest)"
    by simp
  have h: "slice_from (slice ?line 0 (indexOf ?line ''  '')) 1 = digest"
    unfolding idx by (simp add: slice_def slice_from_def slice_index_def n)
  have n3: "nat (3 + int (length digest)) = Suc (Suc (Suc (length digest)))"
    by simp
  have p: "slice_from ?line (indexOf ?line ''  '' + 2) = ?rest"
    unfolding idx by (simp add: slice_from_def slice_index_def n3)
  have e: "charAt ?line 0 = [bslash]"
    by (simp add: charAt_def)
  have d: "replaceAll (replaceAll ?rest [bslash, CHR ''n''] [newline]) [bslash, bslash] [bslash]
             = ''path'' @ [newline] @ ''with'' @ [bslash] @ ''escapes''"
    by (simp add: startsWith_def)
  show ?thesis
    unfolding parseAssetIndexEntry_def Let_def h p e d
    by (simp add: startsWith_def)
qed

theorem parser_round_trip_witness:
  "parseAssetIndexEntry
     (bslash # ''3a7bd3e2'' @ ''  '' @ ''path'' @ [bslash, CHR ''n''] @ ''with''
        @ [bslash, bslash] @ ''escapes'')
   = \<lparr> hash = ''3a7bd3e2'',
       path = ''./path'' @ [newline] @ ''with'' @ [bslash] @ ''escapes'' \<rparr>"
  using parser_round_trip [of "''3a7bd3e2''"] by simp

text \<open>
  C10. On a line that begins with a backslash the path is decoded by replacing every
  backslash-n with a newline first and every backslash-backslash with one backslash
  after that. So when the path segment of the line contains backslash, backslash, n,
  the decoded path contains a backslash followed by a newline, and no backslash followed
  by the letter n.
\<close>

theorem newline_unescape_first:
  assumes "charAt line 0 = [bslash]"
  shows "path (parseAssetIndexEntry line) =
           (let p = replaceAll (replaceAll (path_segment line) [bslash, CHR ''n''] [newline])
                      [bslash, bslash] [bslash]
            in if startsWith p ''./'' then p else ''./'' @ p)
         \<and> (includes_str (path_segment line) [bslash, bslash, CHR ''n'']
              \<longrightarrow> includes_str (path (parseAssetIndexEntry line)) [bslash, newline]
                \<and> \<not> includes_str (path (parseAssetIndexEntry line)) [bslash, CHR ''n''])"
proof -
  let ?p = "replaceAll (replaceAll (path_segment line) [bslash, CHR ''n''] [newline])
              [bslash, bslash] [bslash]"
  have no: "\<not> includes_str ?p [bslash, CHR ''n'']"
    by (rule backslash_pass_excludes) (rule newline_pass_excludes)
  have no': "\<not> includes_str (''./'' @ ?p) [bslash, CHR ''n'']"
    using no by (simp add: startsWith_def)
  have yes: "includes_str ?p [bslash, newline]"
    if "includes_str (path_segment line) [bslash, bslash, CHR ''n'']"
    using that by (intro backslash_pass_includes newline_pass_includes)
  have yes': "includes_str (''./'' @ ?p) [bslash, newline]"
    if "includes_str (path_segment line) [bslash, bslash, CHR ''n'']"
    using yes [OF that] by (rule includes_append_left)
  show ?thesis
    unfolding decoded_path [OF assms] Let_def
    using no no' yes yes' by simp
qed

theorem newline_unescape_first_witness:
  "parseAssetIndexEntry (bslash # ''ab12  dir'' @ [bslash, bslash, CHR ''n''] @ ''ame'')
     = \<lparr> hash = ''ab12'', path = ''./dir'' @ [bslash, newline] @ ''ame'' \<rparr>
   \<and> includes_str (path (parseAssetIndexEntry
        (bslash # ''ab12  dir'' @ [bslash, bslash, CHR ''n''] @ ''ame''))) [bslash, newline]
   \<and> \<not> includes_str (path (parseAssetIndexEntry
        (bslash # ''ab12  dir'' @ [bslash, bslash, CHR ''n''] @ ''ame''))) [bslash, CHR ''n'']"
proof -
  let ?line = "bslash # ''ab12  dir'' @ [bslash, bslash, CHR ''n''] @ ''ame''"
  have e: "charAt ?line 0 = [bslash]"
    by (simp add: charAt_def)
  have s: "path_segment ?line = ''dir'' @ [bslash, bslash, CHR ''n''] @ ''ame''"
    by (simp add: path_segment_def indexOf_def slice_from_def slice_index_def startsWith_def)
  have i: "includes_str (path_segment ?line) [bslash, bslash, CHR ''n'']"
    unfolding s by (simp add: startsWith_def)
  have v: "parseAssetIndexEntry ?line
             = \<lparr> hash = ''ab12'', path = ''./dir'' @ [bslash, newline] @ ''ame'' \<rparr>"
    by (simp add: parseAssetIndexEntry_def indexOf_def slice_def slice_from_def
        slice_index_def charAt_def startsWith_def)
  from newline_unescape_first [OF e] i
  have "includes_str (path (parseAssetIndexEntry ?line)) [bslash, newline]
          \<and> \<not> includes_str (path (parseAssetIndexEntry ?line)) [bslash, CHR ''n'']"
    by blast
  with v show ?thesis by blast
qed

section \<open>The tasks of a cycle\<close>

text \<open>A joined promise that is fulfilled has left no task running.\<close>

lemma promise_all_finished:
  "promise_all task xs w = (None, unfinished, w') \<Longrightarrow> unfinished = []"
  by (induction xs arbitrary: w) (auto split: prod.splits option.splits)

lemma promise_all_Cons_None:
  assumes "promise_all task (x # xs) w = (None, unfinished, w')"
  obtains w1 where "task x w = (None, w1)" "promise_all task xs w1 = (None, unfinished, w')"
  using assms by (auto split: prod.splits option.splits)

lemma promise_all_preserves:
  assumes "\<And>x w. x \<in> set xs \<Longrightarrow> P w \<Longrightarrow> P (snd (task x w))" and "P w"
  shows "P (snd (snd (promise_all task xs w)))"
  using assms
proof (induction xs arbitrary: w)
  case Nil
  then show ?case by simp
next
  case (Cons x xs)
  obtain r1 w1 where t: "task x w = (r1, w1)" by (cases "task x w")
  from Cons.prems(1) [of x w] Cons.prems(2) t have p1: "P w1" by simp
  show ?case
  proof (cases r1)
    case None
    from p1 have "P (snd (snd (promise_all task xs w1)))"
      by (rule Cons.IH [rotated]) (simp add: Cons.prems(1))
    with t None show ?thesis by simp
  next
    case (Some error)
    with t p1 show ?thesis by simp
  qed
qed

lemma promise_all_succeeds:
  assumes "\<And>x w. x \<in> set xs \<Longrightarrow> fst (task x w) = None"
  shows "fst (promise_all task xs w) = None"
  using assms
proof (induction xs arbitrary: w)
  case Nil
  then show ?case by simp
next
  case (Cons x xs)
  obtain r1 w1 where t: "task x w = (r1, w1)" by (cases "task x w")
  with Cons.prems [of x w] have "r1 = None" by simp
  moreover have "fst (promise_all task xs w1) = None"
    by (rule Cons.IH) (simp add: Cons.prems)
  ultimately show ?case using t by simp
qed


lemma map_of_delete [simp]: "map_of (AList.delete k al) k' = (if k' = k then None else map_of al k')"
  by (simp add: delete_conv')

lemma map_of_update [simp]: "map_of (AList.update k v al) k' = (if k' = k then Some v else map_of al k')"
  by (simp add: update_conv')

lemma map_of_cache_put [simp]:
  "map_of (cache_put url b c) u = (if u = url then Some b else map_of c u)"
  by (auto simp: cache_put_def map_add_def split: option.splits)

lemma map_of_filter_key:
  "(\<And>v. P (k, v)) \<Longrightarrow> map_of (filter P al) k = map_of al k"
  by (induction al) auto


lemma update_fresh_key:
  "k \<notin> fst ` set al \<Longrightarrow> AList.update k v al = al @ [(k, v)]"
  by (induction al) auto

lemma update_keys_insert:
  "fst ` set (AList.update k r al) = insert k (fst ` set al)"
  by (induction al) auto

lemma worker_idb_same [simp]: "w\<lparr> idb := idb w \<rparr> = w" "w\<lparr> cache := cache w \<rparr> = w"
  by simp_all

text \<open>What one update task may change.\<close>

lemma updateOfflineAsset_local:
  "idb (snd (updateOfflineAsset pf e w)) = idb w
     \<or> idb (snd (updateOfflineAsset pf e w)) = AList.update (path e) (stored e) (idb w)"
  "cache (snd (updateOfflineAsset pf e w)) = cache w
     \<or> (\<exists>b. cache (snd (updateOfflineAsset pf e w)) = cache_put (resolve pf (path e)) b (cache w))"
  "console (snd (updateOfflineAsset pf e w)) = console w"
  "stragglers (snd (updateOfflineAsset pf e w)) = stragglers w"
  by (auto simp: updateOfflineAsset_def idbGet_def idbPut_def cache_add_def stored_def Let_def
      split: option.splits)

lemma updateOfflineAsset_frame:
  "coordination (snd (updateOfflineAsset pf e w)) = coordination w"
  by (auto simp: updateOfflineAsset_def idbGet_def idbPut_def cache_add_def coordination_def Let_def
      split: option.splits)

lemma fetchAssetIndex_frame:
  "fetchAssetIndex pf lm w = (r, w') \<Longrightarrow> coordination w' = coordination w"
  by (auto simp: fetchAssetIndex_def coordination_def Let_def split: option.splits if_splits)

lemma updateOfflineAsset_other_key:
  "k \<noteq> path e \<Longrightarrow> map_of (idb (snd (updateOfflineAsset pf e w))) k = map_of (idb w) k"
  using updateOfflineAsset_local(1) [of pf e w] by auto


lemma updateOfflineAsset_keeps_cached:
  "map_of (cache w) u \<noteq> None \<Longrightarrow> map_of (cache (snd (updateOfflineAsset pf e w))) u \<noteq> None"
  using updateOfflineAsset_local(2) [of pf e w] by auto

lemma updateOfflineAsset_other_entry:
  assumes "path y \<noteq> path e"
  shows "needs_update e (snd (updateOfflineAsset pf y w)) = needs_update e w"
  using assms by (simp add: needs_update_def updateOfflineAsset_other_key)



lemma updateOfflineAsset_done:
  assumes "updateOfflineAsset pf e w = (None, v)"
  shows "\<not> needs_update e v" and "needs_update e w \<Longrightarrow> cached pf e v"
    and "\<not> needs_update e w \<Longrightarrow> v = w"
  using assms
  by (auto simp: updateOfflineAsset_def idbGet_def idbPut_def cache_add_def needs_update_def
      cached_def Let_def split: option.splits if_splits)

lemma updateOfflineAsset_fresh:
  assumes "updateOfflineAsset pf e w = (None, w')" "map_option hash (map_of (idb w) (path e)) \<noteq> Some (hash e)"
  shows "\<exists>b. network pf (resolve pf (path e)) = Some b
           \<and> w' = w\<lparr> network_log := network_log w @ [AssetRequest (resolve pf (path e))],
                      cache := cache_put (resolve pf (path e)) b (cache w),
                      idb := AList.update (path e) (stored e) (idb w) \<rparr>"
  using assms
  by (auto simp: updateOfflineAsset_def idbGet_def idbPut_def cache_add_def stored_def Let_def
      split: if_splits option.splits)

text \<open>The passes whose tasks are never rejected, in closed form.\<close>

lemma pruneMissing_all_closed:
  assumes "\<forall>p \<in> set ks. \<not> idb_fails pf (OpDelete p)"
  shows "promise_all (pruneMissing pf) ks w =
           (None, [], w\<lparr> idb := filter (\<lambda>kv. fst kv \<notin> set ks
                                       \<or> map_of (cache w) (resolve pf (fst kv)) \<noteq> None) (idb w) \<rparr>)"
  using assms
proof (induction ks arbitrary: w)
  case Nil
  then show ?case by simp
next
  case (Cons p ks)
  show ?case
  proof (cases "map_of (cache w) (resolve pf p) = None")
    case True
    with Cons.prems have t: "pruneMissing pf p w = (None, w\<lparr> idb := AList.delete p (idb w) \<rparr>)"
      by (simp add: pruneMissing_def idbDelete_def)
    have "filter (\<lambda>kv. fst kv \<notin> set ks \<or> map_of (cache w) (resolve pf (fst kv)) \<noteq> None)
            (AList.delete p (idb w))
          = filter (\<lambda>kv. fst kv \<notin> set (p # ks) \<or> map_of (cache w) (resolve pf (fst kv)) \<noteq> None)
              (idb w)"
      using True by (auto simp: AList.delete_eq intro!: filter_cong)
    with Cons.IH [of "w\<lparr> idb := AList.delete p (idb w) \<rparr>"] Cons.prems t
    show ?thesis by simp
  next
    case False
    then have t: "pruneMissing pf p w = (None, w)"
      by (auto simp: pruneMissing_def)
    have "filter (\<lambda>kv. fst kv \<notin> set ks \<or> map_of (cache w) (resolve pf (fst kv)) \<noteq> None) (idb w)
          = filter (\<lambda>kv. fst kv \<notin> set (p # ks) \<or> map_of (cache w) (resolve pf (fst kv)) \<noteq> None)
              (idb w)"
      using False by (auto intro!: filter_cong)
    with Cons.IH [of w] Cons.prems t show ?thesis by simp
  qed
qed

lemma deleteObsolete_all_closed:
  assumes "\<forall>p \<in> set ks. \<not> idb_fails pf (OpDelete p)"
  shows "promise_all (deleteObsolete pf) ks w =
           (None, [], w\<lparr> idb := filter (\<lambda>kv. fst kv \<notin> set ks) (idb w) \<rparr>)"
  using assms
proof (induction ks arbitrary: w)
  case Nil
  then show ?case by simp
next
  case (Cons p ks)
  from Cons.prems have t: "deleteObsolete pf p w = (None, w\<lparr> idb := AList.delete p (idb w) \<rparr>)"
    by (simp add: deleteObsolete_def idbDelete_def)
  have "filter (\<lambda>kv. fst kv \<notin> set ks) (AList.delete p (idb w))
        = filter (\<lambda>kv. fst kv \<notin> set (p # ks)) (idb w)"
    by (auto simp: AList.delete_eq intro!: filter_cong)
  with Cons.IH [of "w\<lparr> idb := AList.delete p (idb w) \<rparr>"] Cons.prems t
  show ?case by simp
qed

lemma cacheDelete_all_closed:
  "promise_all cacheDelete us w =
     (None, [], w\<lparr> cache := filter (\<lambda>kv. fst kv \<notin> set us) (cache w) \<rparr>)"
proof (induction us arbitrary: w)
  case Nil
  then show ?case by simp
next
  case (Cons u us)
  have "filter (\<lambda>kv. fst kv \<notin> set us) (AList.delete u (cache w))
        = filter (\<lambda>kv. fst kv \<notin> set (u # us)) (cache w)"
    by (auto simp: AList.delete_eq intro!: filter_cong)
  with Cons.IH [of "w\<lparr> cache := AList.delete u (cache w) \<rparr>"]
  show ?case by (simp add: cacheDelete_def)
qed

lemma updateOfflineAsset_all_skips:
  assumes "\<forall>e \<in> set es. \<not> needs_update e w \<and> \<not> idb_fails pf (OpGet (path e))"
  shows "promise_all (updateOfflineAsset pf) es w = (None, [], w)"
  using assms
  by (induction es) (auto simp: updateOfflineAsset_def idbGet_def needs_update_def)

section \<open>Single flight and the in-flight bypass\<close>

lemma synchronizedRefreshCache_single:
  "single_cycle w \<Longrightarrow> single_cycle (snd (synchronizedRefreshCache a db w))"
proof (cases "refreshCachePromise w")
  case None
  assume "single_cycle w"
  with None have "running w = []"
    by (cases "running w") (auto simp: single_cycle_def)
  with None show ?thesis
    by (simp add: single_cycle_def synchronizedRefreshCache_def)
next
  case (Some p)
  assume "single_cycle w"
  with Some show ?thesis
    by (simp add: synchronizedRefreshCache_def)
qed

lemma single_cycle_cong:
  "running w' = running w \<Longrightarrow> refreshCachePromise w' = refreshCachePromise w
     \<Longrightarrow> single_cycle w' = single_cycle w"
  by (simp add: single_cycle_def)

lemma handleFetch_single:
  assumes "single_cycle w"
  shows "single_cycle (snd (handleFetch pf request w))"
proof -
  have f: "single_cycle (snd (fetch_request request v)) = single_cycle v" for v
    by (simp add: fetch_request_def single_cycle_def)
  have c: "single_cycle (snd (cache_or_network request v)) = single_cycle v" for v
    by (simp add: cache_or_network_def fetch_request_def single_cycle_def Let_def split: option.splits)
  have e: "single_cycle (console_error m v) = single_cycle v" for m v
    by (simp add: console_error_def single_cycle_def)
  have m: "single_cycle v' = single_cycle v" if "fetchAssetIndex pf lm v = (r, v')" for lm v r v'
    using fetchAssetIndex_frame [OF that] by (simp add: single_cycle_def coordination_def)
  have s: "single_cycle v'" if "synchronizedRefreshCache a db v = (q, v')" "single_cycle v"
    for a db v q v'
    using synchronizedRefreshCache_single [OF that(2), of a db] that(1) by simp
  have k: "single_cycle (v\<lparr> caught := x \<rparr>) = single_cycle v" for v x
    by (simp add: single_cycle_def)
  show ?thesis
    unfolding handleFetch_def Let_def
    using assms
    by (auto simp: f c e k split: option.splits prod.splits sum.splits if_splits dest: m s)
qed

lemma settle_single:
  assumes "single_cycle w"
  shows "single_cycle (settle pf w)"
proof (cases "running w")
  case Nil
  with assms show ?thesis by (simp add: settle_def)
next
  case (Cons c rest)
  with assms have rest: "rest = []" by (simp add: single_cycle_def)
  obtain p a db where c: "c = (p, a, db)" by (cases c)
  obtain r w1 where rc: "refreshCache pf a db w = (r, w1)" by (cases "refreshCache pf a db w")
  show ?thesis
    using Cons rest c rc
    by (cases r) (simp_all add: settle_def single_cycle_def console_error_def Let_def)
qed

lemma straggler_single:
  "single_cycle w \<Longrightarrow> single_cycle ((snd (updateOfflineAsset pf e w))\<lparr> stragglers := rest \<rparr>)"
  using updateOfflineAsset_frame [of pf e w] by (simp add: single_cycle_def coordination_def)

lemma step_single: "single_cycle w \<Longrightarrow> single_cycle (step pf w ev)"
  by (cases ev)
    (simp_all add: step_def synchronizedRefreshCache_single handleFetch_single settle_single
      straggler_single split: list.splits)

lemma run_single: "single_cycle w \<Longrightarrow> single_cycle (run pf evs w)"
  unfolding run_def by (induction evs arbitrary: w) (simp_all add: step_single)

lemma initial_single: "single_cycle initial_worker"
  by (simp add: single_cycle_def initial_worker_def)

text \<open>
  C1. In every state the worker reaches, at most one refresh cycle runs, and it is the
  cycle of the promise kept in \<open>refreshCachePromise\<close>; a call of
  \<open>synchronizedRefreshCache\<close> made while a promise is kept returns that promise and
  changes nothing, so it starts no cycle. A new cycle starts only after the one in
  flight has settled and its \<open>finally\<close> callback has cleared the global.
\<close>

theorem single_flight:
  "single_cycle (run pf evs initial_worker)
   \<and> (\<forall>p. refreshCachePromise (run pf evs initial_worker) = Some p \<longrightarrow>
        synchronizedRefreshCache cachedAssetIndex offlineAssetIndexDB (run pf evs initial_worker)
          = (p, run pf evs initial_worker))"
  using run_single [OF initial_single, of pf evs]
  by (simp add: synchronizedRefreshCache_def)

theorem single_flight_witness:
  "refreshCachePromise (run demo_platform [Fetch ''/app/a.js'', Activate, Call (Some demo_index) True, Fetch ''/app/a.js''] initial_worker) = Some 0
   \<and> running (run demo_platform [Fetch ''/app/a.js'', Activate, Call (Some demo_index) True, Fetch ''/app/a.js''] initial_worker) = [(0, None, False)]
   \<and> synchronizedRefreshCache None False
        (run demo_platform [Fetch ''/app/a.js'', Activate, Call (Some demo_index) True, Fetch ''/app/a.js''] initial_worker)
      = (0, run demo_platform [Fetch ''/app/a.js'', Activate, Call (Some demo_index) True, Fetch ''/app/a.js''] initial_worker)"
proof -
  let ?w = "run demo_platform [Fetch ''/app/a.js'', Activate, Call (Some demo_index) True, Fetch ''/app/a.js''] initial_worker"
  have p: "refreshCachePromise ?w = Some 0" and r: "running ?w = [(0, None, False)]"
    by (simp_all add: run_def step_def handleFetch_def demo_platform_def startsWith_def initial_worker_def
        synchronizedRefreshCache_def cache_or_network_def fetch_request_def slice_from_def
        slice_index_def Let_def)
  from single_flight [of demo_platform "[Fetch ''/app/a.js'', Activate, Call (Some demo_index) True, Fetch ''/app/a.js'']" None False] p r
  show ?thesis by simp
qed

text \<open>
  C2. A request handled while a refresh is in flight is answered by
  \<open>fetch(event.request)\<close>: the only effect is the request sent to the network; the cache
  is not looked up (\<open>match_log\<close> is unchanged) and no cached body is served.
\<close>

theorem refresh_in_flight_bypasses_cache:
  assumes "refreshCachePromise w = Some p"
  shows "handleFetch pf request w
           = (FromNetwork request, w\<lparr> network_log := network_log w @ [PassThrough request] \<rparr>)"
  using assms by (simp add: handleFetch_def fetch_request_def)

theorem refresh_in_flight_bypasses_cache_witness:
  "refreshCachePromise (run demo_platform [Activate] initial_worker) = Some 0
   \<and> handleFetch demo_platform ''/app/a.js'' (run demo_platform [Activate] initial_worker)
       = (FromNetwork ''/app/a.js'',
          (run demo_platform [Activate] initial_worker)
            \<lparr> network_log := [PassThrough ''/app/a.js''] \<rparr>)"
proof -
  have p: "refreshCachePromise (run demo_platform [Activate] initial_worker) = Some 0"
    and n: "network_log (run demo_platform [Activate] initial_worker) = []"
    by (simp_all add: run_def step_def initial_worker_def synchronizedRefreshCache_def)
  from refresh_in_flight_bypasses_cache [OF p, of demo_platform "''/app/a.js''"] p n
  show ?thesis by simp
qed

section \<open>Faults during the entry-point check\<close>

lemma demo_manifest:
  "fetchAssetIndex sentinel_fault_platform None w =
     (Some \<lparr> index_hash = ''d1'', index_lastModified = Some ''Monday'',
             entries = [\<lparr> hash = ''11'', path = ''./a.js'' \<rparr>, \<lparr> hash = ''22'', path = ''./b.js'' \<rparr>] \<rparr>,
      w \<lparr> network_log := network_log w @ [ManifestRequest None] \<rparr>)"
  by (simp add: fetchAssetIndex_def sentinel_fault_platform_def demo_platform_def startsWith_def Let_def
      parseAssetIndexEntry_def indexOf_def slice_def slice_from_def slice_index_def charAt_def
      startsWith_def)

text \<open>
  C8, as stated, fails: on the first request to the scope root, with the sentinel read
  failing and the manifest reachable, the handler starts a refresh and answers from the
  network, without looking the request up in the cache.
\<close>

theorem entry_point_sentinel_fault_counterexample:
  "idb_fails sentinel_fault_platform (OpGet IDB_KEY_OFFLINE_INDEX)
   \<and> is_entry_point sentinel_fault_platform ''/app/''
   \<and> refreshCachePromise initial_worker = None
   \<and> fst (handleFetch sentinel_fault_platform ''/app/'' initial_worker) = FromNetwork ''/app/''
   \<and> refreshCachePromise (snd (handleFetch sentinel_fault_platform ''/app/'' initial_worker)) = Some 0
   \<and> length (running (snd (handleFetch sentinel_fault_platform ''/app/'' initial_worker))) = 1
   \<and> match_log (snd (handleFetch sentinel_fault_platform ''/app/'' initial_worker)) = []"
proof -
  have a: "idb_fails sentinel_fault_platform (OpGet IDB_KEY_OFFLINE_INDEX)"
    "\<not> idb_fails sentinel_fault_platform OpOpen"
    "pathname sentinel_fault_platform ''/app/'' = ''/app/''"
    "scopePath sentinel_fault_platform = ''/app/''"
    by (simp_all add: sentinel_fault_platform_def demo_platform_def startsWith_def)
  show ?thesis
    by (simp add: a is_entry_point_def handleFetch_def initOfflineAssetIndex_def idbGet_def
        demo_manifest synchronizedRefreshCache_def fetch_request_def console_error_def
        initial_worker_def slice_from_def slice_index_def Let_def)
qed

text \<open>
  C8, amended. For a request to the navigation entry point with no refresh in flight:
  when the database cannot be opened, the error is logged, no refresh is started and the
  request is served from the cache if present, otherwise from the network; when the
  database opens and no manifest can be obtained, no refresh is started and the request
  is served in the same way, with a log entry only if the sentinel read failed; when
  only the sentinel read fails, it is logged and the check goes on without a recorded
  digest, so that a manifest obtained by the unconditional request starts a refresh and
  the request is answered from the network.
\<close>

theorem entry_point_check_faults:
  assumes "refreshCachePromise w = None" and "is_entry_point pf request"
  shows "(idb_fails pf OpOpen \<longrightarrow>
            fst (handleFetch pf request w) = cached_or_fetched request w
          \<and> coordination (snd (handleFetch pf request w)) = coordination w
          \<and> console (snd (handleFetch pf request w))
              = console w @ [''Failed to retrieve offline index entry:''])
       \<and> (\<not> idb_fails pf OpOpen
            \<and> (\<forall>header. case manifest_response pf header of None \<Rightarrow> True | Some r \<Rightarrow> \<not> ok r) \<longrightarrow>
            fst (handleFetch pf request w) = cached_or_fetched request w
          \<and> coordination (snd (handleFetch pf request w)) = coordination w
          \<and> console (snd (handleFetch pf request w))
              = console w @ (if idb_fails pf (OpGet IDB_KEY_OFFLINE_INDEX)
                             then [''Failed to retrieve offline index entry:''] else []))
       \<and> (\<not> idb_fails pf OpOpen \<and> idb_fails pf (OpGet IDB_KEY_OFFLINE_INDEX)
            \<and> (\<exists>r. manifest_response pf None = Some r \<and> ok r) \<longrightarrow>
            fst (handleFetch pf request w) = FromNetwork request
          \<and> refreshCachePromise (snd (handleFetch pf request w)) = Some (promises w)
          \<and> match_log (snd (handleFetch pf request w)) = match_log w
          \<and> console (snd (handleFetch pf request w))
              = console w @ [''Failed to retrieve offline index entry:''])"
    (is "?open \<and> ?offline \<and> ?sentinel")
proof -
  note defs = handleFetch_def initOfflineAssetIndex_def idbGet_def console_error_def
    cache_or_network_def fetch_request_def cached_or_fetched_def coordination_def Let_def
  from assms(2) have e: "slice_from (pathname pf request) (int (length (scopePath pf)))
          \<in> set [[], ''index.html'']"
    by (simp add: is_entry_point_def)
  have 1: ?open
    using assms(1) e by (simp add: defs split: option.splits)
  have 2: ?offline
  proof (intro impI, elim conjE)
    assume o: "\<not> idb_fails pf OpOpen"
      and m: "\<forall>header. case manifest_response pf header of None \<Rightarrow> True | Some r \<Rightarrow> \<not> ok r"
    have f: "fetchAssetIndex pf lm v = (None, v\<lparr> network_log := network_log v @ [ManifestRequest
               (case lm of None \<Rightarrow> None | Some t \<Rightarrow> if t = [] then None else Some t)] \<rparr>)" for lm v
      using m by (auto simp: fetchAssetIndex_def Let_def split: option.splits)
    show "fst (handleFetch pf request w) = cached_or_fetched request w
          \<and> coordination (snd (handleFetch pf request w)) = coordination w
          \<and> console (snd (handleFetch pf request w))
              = console w @ (if idb_fails pf (OpGet IDB_KEY_OFFLINE_INDEX)
                             then [''Failed to retrieve offline index entry:''] else [])"
      using assms(1) e o by (simp add: defs f split: option.splits)
  qed
  have 3: ?sentinel
  proof (intro impI, elim conjE exE)
    fix r
    assume o: "\<not> idb_fails pf OpOpen" and g: "idb_fails pf (OpGet IDB_KEY_OFFLINE_INDEX)"
      and m: "manifest_response pf None = Some r" "ok r"
    obtain a where f: "fetchAssetIndex pf None v
          = (Some a, v\<lparr> network_log := network_log v @ [ManifestRequest None] \<rparr>)" for v
      using m by (simp add: fetchAssetIndex_def Let_def)
    show "fst (handleFetch pf request w) = FromNetwork request
          \<and> refreshCachePromise (snd (handleFetch pf request w)) = Some (promises w)
          \<and> match_log (snd (handleFetch pf request w)) = match_log w
          \<and> console (snd (handleFetch pf request w))
              = console w @ [''Failed to retrieve offline index entry:'']"
      using assms(1) e o g by (simp add: defs f synchronizedRefreshCache_def)
  qed
  from 1 2 3 show ?thesis by blast
qed

theorem entry_point_check_faults_witness:
  "fst (handleFetch open_fault_platform ''/app/''
          (initial_worker \<lparr> cache := [(''/app/'', ''page'')] \<rparr>)) = FromCache ''page''
   \<and> refreshCachePromise (snd (handleFetch open_fault_platform ''/app/''
          (initial_worker \<lparr> cache := [(''/app/'', ''page'')] \<rparr>))) = None
   \<and> console (snd (handleFetch open_fault_platform ''/app/''
          (initial_worker \<lparr> cache := [(''/app/'', ''page'')] \<rparr>)))
        = [''Failed to retrieve offline index entry:'']
   \<and> fst (handleFetch offline_platform ''/app/index.html'' initial_worker)
        = FromNetwork ''/app/index.html''
   \<and> refreshCachePromise (snd (handleFetch offline_platform ''/app/index.html'' initial_worker))
        = None
   \<and> console (snd (handleFetch offline_platform ''/app/index.html'' initial_worker)) = []
   \<and> fst (handleFetch sentinel_fault_platform ''/app/'' initial_worker) = FromNetwork ''/app/''
   \<and> refreshCachePromise (snd (handleFetch sentinel_fault_platform ''/app/'' initial_worker))
        = Some 0"
proof -
  let ?w = "initial_worker \<lparr> cache := [(''/app/'', ''page'')] \<rparr>"
  have i: "refreshCachePromise ?w = None" "refreshCachePromise initial_worker = None"
    "promises initial_worker = 0" "console initial_worker = []" "console ?w = []"
    "cache initial_worker = []" "cache ?w = [(''/app/'', ''page'')]"
    "coordination initial_worker = (None, [], 0, [], [])"
    "coordination ?w = (None, [], 0, [], [])"
    by (simp_all add: initial_worker_def coordination_def)
  have e: "is_entry_point open_fault_platform ''/app/''"
    "is_entry_point offline_platform ''/app/index.html''"
    "is_entry_point sentinel_fault_platform ''/app/''"
    by (simp_all add: is_entry_point_def open_fault_platform_def offline_platform_def
        sentinel_fault_platform_def demo_platform_def startsWith_def slice_from_def slice_index_def)
  have f: "idb_fails open_fault_platform OpOpen"
    "\<not> idb_fails offline_platform OpOpen"
    "\<not> idb_fails offline_platform (OpGet IDB_KEY_OFFLINE_INDEX)"
    "\<forall>header. case manifest_response offline_platform header of None \<Rightarrow> True | Some r \<Rightarrow> \<not> ok r"
    "\<not> idb_fails sentinel_fault_platform OpOpen"
    "idb_fails sentinel_fault_platform (OpGet IDB_KEY_OFFLINE_INDEX)"
    "\<exists>r. manifest_response sentinel_fault_platform None = Some r \<and> ok r"
    by (simp_all add: open_fault_platform_def offline_platform_def sentinel_fault_platform_def
        demo_platform_def startsWith_def)
  from entry_point_check_faults [OF i(1) e(1)] f(1)
  have a: "fst (handleFetch open_fault_platform ''/app/'' ?w) = cached_or_fetched ''/app/'' ?w"
    "coordination (snd (handleFetch open_fault_platform ''/app/'' ?w)) = coordination ?w"
    "console (snd (handleFetch open_fault_platform ''/app/'' ?w))
       = console ?w @ [''Failed to retrieve offline index entry:'']"
    by blast+
  from entry_point_check_faults [OF i(2) e(2)] f(2,3,4)
  have b: "fst (handleFetch offline_platform ''/app/index.html'' initial_worker)
             = cached_or_fetched ''/app/index.html'' initial_worker"
    "coordination (snd (handleFetch offline_platform ''/app/index.html'' initial_worker))
       = coordination initial_worker"
    "console (snd (handleFetch offline_platform ''/app/index.html'' initial_worker))
       = console initial_worker @ []"
    by simp_all
  from entry_point_check_faults [OF i(2) e(3)] f(5,6,7)
  have c: "fst (handleFetch sentinel_fault_platform ''/app/'' initial_worker) = FromNetwork ''/app/''"
    "refreshCachePromise (snd (handleFetch sentinel_fault_platform ''/app/'' initial_worker))
       = Some (promises initial_worker)"
    by blast+
  have a2: "refreshCachePromise (snd (handleFetch open_fault_platform ''/app/'' ?w)) = None"
    using a(2) unfolding i(9) by (simp add: coordination_def)
  have b2: "refreshCachePromise (snd (handleFetch offline_platform ''/app/index.html'' initial_worker)) = None"
    using b(2) unfolding i(8) by (simp add: coordination_def)
  show ?thesis
    using a(1,3) a2 b(1,3) b2 c
    by (simp add: i cached_or_fetched_def)
qed

section \<open>Convergence and eviction\<close>

lemma url_stable_not_sentinel: "url_stable pf p \<Longrightarrow> p \<noteq> IDB_KEY_OFFLINE_INDEX"
  by (auto simp: url_stable_def derivedPath_def IDB_KEY_OFFLINE_INDEX_def)

lemma url_stable_inj: "url_stable pf p \<Longrightarrow> url_stable pf q \<Longrightarrow> resolve pf p = resolve pf q \<Longrightarrow> p = q"
  by (auto simp: url_stable_def)

lemma promise_all_two:
  "promise_all task [x, y] w = (None, unfinished, w') \<Longrightarrow>
     \<exists>w1. task x w = (None, w1) \<and> task y w1 = (None, w')"
  by (auto split: prod.splits option.splits)

lemma first_cycle_state:
  assumes ab: "A \<noteq> B" and sa: "url_stable pf A" and sb: "url_stable pf B"
    and empty: "idb w = []" "cache w = []"
    and ok: "refreshCache pf
               (Some \<lparr> index_hash = H, index_lastModified = L,
                       entries = [\<lparr> hash = h1, path = A \<rparr>, \<lparr> hash = h2, path = B \<rparr>] \<rparr>)
               db w = (Fulfilled, w')"
  shows "\<exists>bA bB. network pf (resolve pf A) = Some bA \<and> network pf (resolve pf B) = Some bB
           \<and> cache w' = [(resolve pf A, bA), (resolve pf B, bB)]
           \<and> idb w' = [(A, \<lparr> hash = h1, path = A, lastModified = None \<rparr>),
                       (B, \<lparr> hash = h2, path = B, lastModified = None \<rparr>),
                       (IDB_KEY_OFFLINE_INDEX,
                        \<lparr> hash = H, path = IDB_KEY_OFFLINE_INDEX, lastModified = L \<rparr>)]
           \<and> network_log w' = network_log w @ [AssetRequest (resolve pf A), AssetRequest (resolve pf B)]
           \<and> console w' = console w"
proof -
  let ?eA = "\<lparr> hash = h1, path = A \<rparr>" and ?eB = "\<lparr> hash = h2, path = B \<rparr>"
  obtain r3 u3 w3 where u0: "promise_all (updateOfflineAsset pf) [?eA, ?eB] w = (r3, u3, w3)"
    by (metis prod_cases3)
  define C where "C = filter (\<lambda>kv. fst kv \<notin> set (filter (\<lambda>request.
                         derivedPath pf request \<notin> set [A, B]) (map fst (cache w3)))) (cache w3)"
  from ok have r3: "r3 = None"
    and put: "idbPut pf \<lparr> hash = H, path = IDB_KEY_OFFLINE_INDEX, lastModified = L \<rparr>
                (w3\<lparr> cache := C \<rparr>) = Inr w'"
    using empty unfolding C_def
    by (auto simp: refreshCache_def getAllKeys_def event_source_def Let_def u0
        cacheDelete_all_closed simp del: promise_all.simps(2)
        split: if_splits option.splits sum.splits)
  from u0 r3 have u: "promise_all (updateOfflineAsset pf) [?eA, ?eB] w = (None, u3, w3)"
    by simp
  from promise_all_two [OF u] obtain w1 where
    ua: "updateOfflineAsset pf ?eA w = (None, w1)" and ub: "updateOfflineAsset pf ?eB w1 = (None, w3)"
    by blast
  from updateOfflineAsset_fresh [OF ua] empty obtain bA where
    na: "network pf (resolve pf A) = Some bA"
    and w1: "w1 = w\<lparr> network_log := network_log w @ [AssetRequest (resolve pf A)],
                      cache := cache_put (resolve pf A) bA (cache w),
                      idb := AList.update A (stored ?eA) (idb w) \<rparr>"
    by auto
  from updateOfflineAsset_fresh [OF ub] ab empty w1 obtain bB where
    nb: "network pf (resolve pf B) = Some bB"
    and w3: "w3 = w1\<lparr> network_log := network_log w1 @ [AssetRequest (resolve pf B)],
                      cache := cache_put (resolve pf B) bB (cache w1),
                      idb := AList.update B (stored ?eB) (idb w1) \<rparr>"
    by auto
  have ne: "resolve pf A \<noteq> resolve pf B" "A \<noteq> IDB_KEY_OFFLINE_INDEX" "B \<noteq> IDB_KEY_OFFLINE_INDEX"
    using url_stable_inj [OF sa sb] ab url_stable_not_sentinel [OF sa] url_stable_not_sentinel [OF sb]
    by auto
  have c3: "cache w3 = [(resolve pf A, bA), (resolve pf B, bB)]"
    and i3: "idb w3 = [(A, stored ?eA), (B, stored ?eB)]"
    using ne ab by (simp_all add: w3 w1 empty cache_put_def)
  have d: "derivedPath pf (resolve pf A) = A" "derivedPath pf (resolve pf B) = B"
    using sa sb by (simp_all add: url_stable_def)
  have "C = cache w3"
    unfolding C_def by (simp add: c3 d)
  with put have "w' = w3\<lparr> idb := AList.update IDB_KEY_OFFLINE_INDEX
                   \<lparr> hash = H, path = IDB_KEY_OFFLINE_INDEX, lastModified = L \<rparr> (idb w3) \<rparr>"
    by (auto simp: idbPut_def split: if_splits)
  then show ?thesis
    using na nb c3 i3 ne by (simp add: stored_def w3 w1)
qed

text \<open>
  From an empty cache and an empty index, a fulfilled cycle for the manifest with the
  entries A at h1 and B at h2 leaves the cache with exactly the URLs of A and B and the
  index with the records of A, of B and the sentinel, when A and B are different paths
  that URL resolution leaves as they are.
\<close>

lemma convergence_stable_paths:
  assumes "A \<noteq> B" and "url_stable pf A" and "url_stable pf B"
    and "idb w = []" and "cache w = []"
    and "refreshCache pf
           (Some \<lparr> index_hash = H, index_lastModified = L,
                   entries = [\<lparr> hash = h1, path = A \<rparr>, \<lparr> hash = h2, path = B \<rparr>] \<rparr>)
           db w = (Fulfilled, w')"
  shows "set (map fst (cache w')) = {resolve pf A, resolve pf B}
       \<and> network pf (resolve pf A) \<noteq> None
       \<and> map_of (cache w') (resolve pf A) = network pf (resolve pf A)
       \<and> network pf (resolve pf B) \<noteq> None
       \<and> map_of (cache w') (resolve pf B) = network pf (resolve pf B)
       \<and> set (map fst (idb w')) = {A, B, IDB_KEY_OFFLINE_INDEX}
       \<and> map_of (idb w') A = Some \<lparr> hash = h1, path = A, lastModified = None \<rparr>
       \<and> map_of (idb w') B = Some \<lparr> hash = h2, path = B, lastModified = None \<rparr>
       \<and> map_of (idb w') IDB_KEY_OFFLINE_INDEX
           = Some \<lparr> hash = H, path = IDB_KEY_OFFLINE_INDEX, lastModified = L \<rparr>"
proof -
  from first_cycle_state [OF assms] obtain bA bB where
    "network pf (resolve pf A) = Some bA" "network pf (resolve pf B) = Some bB"
    "cache w' = [(resolve pf A, bA), (resolve pf B, bB)]"
    "idb w' = [(A, \<lparr> hash = h1, path = A, lastModified = None \<rparr>),
               (B, \<lparr> hash = h2, path = B, lastModified = None \<rparr>),
               (IDB_KEY_OFFLINE_INDEX,
                \<lparr> hash = H, path = IDB_KEY_OFFLINE_INDEX, lastModified = L \<rparr>)]"
    by blast
  moreover have "resolve pf A \<noteq> resolve pf B" "A \<noteq> IDB_KEY_OFFLINE_INDEX" "B \<noteq> IDB_KEY_OFFLINE_INDEX"
    using url_stable_inj [OF assms(2,3)] assms(1) url_stable_not_sentinel [OF assms(2)]
      url_stable_not_sentinel [OF assms(3)] by auto
  ultimately show ?thesis using assms(1) by auto
qed

text \<open>
  C5. From the state a first cycle for A at h1 and B at h2 leaves, a fulfilled cycle for
  the manifest with A at h1 alone, in which the deletion of the record of B does not
  fail, leaves the cache with the URL of A only and the index with the record of A and
  the sentinel only; B is in neither store, and nothing is fetched.
\<close>

theorem eviction:
  assumes "A \<noteq> B" and "url_stable pf A" and "url_stable pf B"
    and "idb w = []" and "cache w = []"
    and "refreshCache pf
           (Some \<lparr> index_hash = H, index_lastModified = L,
                   entries = [\<lparr> hash = h1, path = A \<rparr>, \<lparr> hash = h2, path = B \<rparr>] \<rparr>)
           db w = (Fulfilled, w1)"
    and "\<not> idb_fails pf (OpDelete B)"
    and second: "refreshCache pf
           (Some \<lparr> index_hash = H', index_lastModified = L',
                   entries = [\<lparr> hash = h1, path = A \<rparr>] \<rparr>)
           db' w1 = (Fulfilled, w2)"
  shows "set (map fst (cache w2)) = {resolve pf A}
       \<and> map_of (cache w2) (resolve pf A) = map_of (cache w1) (resolve pf A)
       \<and> map_of (cache w2) (resolve pf B) = None
       \<and> set (map fst (idb w2)) = {A, IDB_KEY_OFFLINE_INDEX}
       \<and> map_of (idb w2) A = Some \<lparr> hash = h1, path = A, lastModified = None \<rparr>
       \<and> map_of (idb w2) B = None
       \<and> map_of (idb w2) IDB_KEY_OFFLINE_INDEX
           = Some \<lparr> hash = H', path = IDB_KEY_OFFLINE_INDEX, lastModified = L' \<rparr>
       \<and> network_log w2 = network_log w1"
proof -
  from first_cycle_state [OF assms(1-6)] obtain bA bB where
    c1: "cache w1 = [(resolve pf A, bA), (resolve pf B, bB)]"
    and i1: "idb w1 = [(A, \<lparr> hash = h1, path = A, lastModified = None \<rparr>),
               (B, \<lparr> hash = h2, path = B, lastModified = None \<rparr>),
               (IDB_KEY_OFFLINE_INDEX,
                \<lparr> hash = H, path = IDB_KEY_OFFLINE_INDEX, lastModified = L \<rparr>)]"
    by blast
  have ne: "resolve pf A \<noteq> resolve pf B" "A \<noteq> IDB_KEY_OFFLINE_INDEX" "B \<noteq> IDB_KEY_OFFLINE_INDEX"
    "B \<noteq> A"
    using url_stable_inj [OF assms(2,3)] assms(1) url_stable_not_sentinel [OF assms(2)]
      url_stable_not_sentinel [OF assms(3)] by auto
  have d: "derivedPath pf (resolve pf A) = A" "derivedPath pf (resolve pf B) = B"
    using assms(2,3) by (simp_all add: url_stable_def)
  note defs = refreshCache_def getAllKeys_def event_source_def pruneMissing_def
    updateOfflineAsset_def deleteObsolete_def cacheDelete_def idbGet_def idbPut_def
    idbDelete_def initOfflineAssetIndex_def console_error_def Let_def
  from second assms(7) show ?thesis
    using ne d
    by (auto simp: defs c1 i1 split: if_splits)
qed

lemmas cycle_defs = refreshCache_def getAllKeys_def event_source_def pruneMissing_def
  updateOfflineAsset_def deleteObsolete_def cacheDelete_def idbGet_def idbPut_def
  idbDelete_def initOfflineAssetIndex_def console_error_def cache_add_def cache_put_def
  derivedPath_def slice_from_def slice_index_def startsWith_def Let_def

lemma demo_url_stable: "url_stable demo_platform ''./a.js''" "url_stable demo_platform ''./b.js''"
  by (simp_all add: url_stable_def derivedPath_def demo_platform_def startsWith_def slice_from_def slice_index_def)

lemma demo_first_cycle:
  "refreshCache demo_platform (Some demo_index) False initial_worker = (Fulfilled, demo_converged)"
  by (simp add: cycle_defs demo_platform_def startsWith_def demo_index_def demo_converged_def initial_worker_def
      IDB_KEY_OFFLINE_INDEX_def)

lemma demo_second_cycle:
  "refreshCache demo_platform (Some demo_index_without_b) False demo_converged
     = (Fulfilled,
        demo_converged
          \<lparr> idb := [(''./a.js'', \<lparr> hash = ''11'', path = ''./a.js'', lastModified = None \<rparr>),
                     (''offline-index.txt'',
                      \<lparr> hash = ''d2'', path = ''offline-index.txt'', lastModified = Some ''Tuesday'' \<rparr>)],
             cache := [(''/app/a.js'', ''body of /app/a.js'')] \<rparr>)"
  by (simp add: cycle_defs demo_platform_def startsWith_def demo_index_without_b_def demo_converged_def
      initial_worker_def IDB_KEY_OFFLINE_INDEX_def)

theorem eviction_witness:
  "set (map fst (cache (snd (refreshCache demo_platform (Some demo_index_without_b) False
          demo_converged)))) = {''/app/a.js''}
   \<and> set (map fst (idb (snd (refreshCache demo_platform (Some demo_index_without_b) False
          demo_converged)))) = {''./a.js'', ''offline-index.txt''}
   \<and> map_of (idb (snd (refreshCache demo_platform (Some demo_index_without_b) False
          demo_converged))) ''./b.js'' = None"
proof -
  have e: "idb initial_worker = []" "cache initial_worker = []"
    by (simp_all add: initial_worker_def)
  have n: "''./a.js'' \<noteq> ''./b.js''" by simp
  have f: "\<not> idb_fails demo_platform (OpDelete ''./b.js'')"
    by (simp add: demo_platform_def startsWith_def)
  from eviction [OF n demo_url_stable e demo_first_cycle [unfolded demo_index_def] f
      demo_second_cycle [unfolded demo_index_without_b_def]]
  show ?thesis
    unfolding demo_second_cycle snd_conv
    by (simp add: demo_platform_def startsWith_def IDB_KEY_OFFLINE_INDEX_def)
qed

text \<open>The first cycle for the manifest with \<open>a b.js\<close>, from empty stores.\<close>

lemma spaced_first_cycle:
  "refreshCache encoding_platform (Some spaced_index) False initial_worker
     = (Fulfilled, spaced_first)"
  by (simp add: cycle_defs encoding_platform_def percent_encode_def demo_platform_def
      spaced_index_def spaced_first_def initial_worker_def IDB_KEY_OFFLINE_INDEX_def)

text \<open>
  C3. The claim fails on a manifest with a file name that URL resolution rewrites. From
  empty stores the cycle for \<open>a b.js\<close> and \<open>b.js\<close> is fulfilled and records both digests
  and the sentinel, but the cache holds the body of \<open>b.js\<close> only: the body of \<open>a b.js\<close> is
  fetched, and deleted again by the eviction pass, because line 133 compares the
  percent-encoded pathname of the cached request with the path of the manifest.
\<close>

theorem encoded_path_is_evicted:
  "parseAssetIndexEntry ''11  a b.js'' = \<lparr> hash = ''11'', path = ''./a b.js'' \<rparr>
   \<and> refreshCache encoding_platform (Some spaced_index) False initial_worker
       = (Fulfilled, spaced_first)
   \<and> map_of (idb spaced_first) ''./a b.js''
       = Some \<lparr> hash = ''11'', path = ''./a b.js'', lastModified = None \<rparr>
   \<and> resolve encoding_platform ''./a b.js'' = ''/app/a%20b.js''
   \<and> derivedPath encoding_platform ''/app/a%20b.js'' = ''./a%20b.js''
   \<and> map_of (cache spaced_first) ''/app/a%20b.js'' = None
   \<and> map fst (cache spaced_first) = [''/app/b.js'']"
proof -
  have p: "parseAssetIndexEntry ''11  a b.js'' = \<lparr> hash = ''11'', path = ''./a b.js'' \<rparr>"
    by (simp add: parseAssetIndexEntry_def indexOf_def slice_def slice_from_def slice_index_def
        charAt_def startsWith_def)
  have r: "resolve encoding_platform ''./a b.js'' = ''/app/a%20b.js''"
    "derivedPath encoding_platform ''/app/a%20b.js'' = ''./a%20b.js''"
    by (simp_all add: encoding_platform_def percent_encode_def demo_platform_def derivedPath_def
        slice_from_def slice_index_def startsWith_def)
  show ?thesis
    unfolding spaced_first_cycle p r by (simp add: spaced_first_def)
qed

section \<open>A failing entry\<close>



















section \<open>A failed read of the keys, and the cycle run twice\<close>

text \<open>
  A cycle run in the converged state of its manifest, with no IndexedDB fault, is
  fulfilled and leaves the worker as it was: every entry is skipped at the digest
  comparison of line 156, and only the sentinel is deleted and written again.
\<close>

lemma converged_state_is_fixed:
  assumes syn: "synced pf m w" and nofault: "\<forall>op. \<not> idb_fails pf op"
  shows "refreshCache pf (Some m) db w = (Fulfilled, w)"
proof -
  let ?K = IDB_KEY_OFFLINE_INDEX
  let ?sr = "sentinel_record m"
  let ?cached = "\<lambda>k. map_of (cache w) (resolve pf k) \<noteq> None"
  define rest where "rest = butlast (idb w)"
  from syn have idb: "idb w = rest @ [(?K, ?sr)]"
    unfolding rest_def synced_def by (metis append_butlast_last_id)
  from syn have kr: "?K \<notin> fst ` set rest" and kp: "?K \<notin> path ` set (entries m)"
    by (simp_all add: synced_def rest_def)
  from syn have ent: "\<not> needs_update e w" "?cached (path e)" if "e \<in> set (entries m)" for e
    using that by (simp_all add: synced_def)
  from syn have keys: "k = ?K \<or> k \<in> path ` set (entries m)" if "k \<in> fst ` set (idb w)" for k
    using that by (auto simp: synced_def)
  from syn have urls: "derivedPath pf u \<in> path ` set (entries m)" if "u \<in> fst ` set (cache w)" for u
    using that by (auto simp: synced_def)
  have rest_known: "fst kv \<in> path ` set (entries m)" if "kv \<in> set rest" for kv
    using keys [of "fst kv"] that kr idb by force
  have rest_cached: "?cached (fst kv)" if "kv \<in> set rest" for kv
    using rest_known [OF that] ent(2) by auto
  define D2 where "D2 = filter (\<lambda>kv. fst kv \<notin> set (map fst (idb w)) \<or> ?cached (fst kv)) (idb w)"
  have D2: "D2 = rest @ (if ?cached ?K then [(?K, ?sr)] else [])"
    unfolding D2_def idb using rest_cached by (auto intro: filter_True)
  have p2: "promise_all (pruneMissing pf) (map fst (idb w)) w = (None, [], w\<lparr> idb := D2 \<rparr>)"
    unfolding D2_def by (rule pruneMissing_all_closed) (simp add: nofault)
  have same: "map_of D2 (path e) = map_of (idb w) (path e)" if "e \<in> set (entries m)" for e
  proof -
    from that kp have "path e \<noteq> ?K" by (metis imageI)
    then show ?thesis by (auto simp: D2 idb map_add_def split: option.splits)
  qed
  have p3: "promise_all (updateOfflineAsset pf) (entries m) (w\<lparr> idb := D2 \<rparr>) = (None, [], w\<lparr> idb := D2 \<rparr>)"
    by (rule updateOfflineAsset_all_skips) (use ent(1) same nofault in \<open>simp add: needs_update_def\<close>)
  have ks: "set (filter (\<lambda>p. p \<notin> path ` set (entries m)) (map fst (idb w))) = {?K}"
    using rest_known kp by (auto simp: idb)
  have "filter (\<lambda>kv. fst kv \<noteq> ?K) rest = rest"
    using kr by (intro filter_True) force
  then have D4: "filter (\<lambda>kv. fst kv \<noteq> ?K) D2 = rest"
    unfolding D2 by simp
  have p4: "promise_all (deleteObsolete pf)
              (filter (\<lambda>p. p \<notin> path ` set (entries m)) (map fst (idb w))) (w\<lparr> idb := D2 \<rparr>)
            = (None, [], w\<lparr> idb := rest \<rparr>)"
    using deleteObsolete_all_closed [of "filter (\<lambda>p. p \<notin> path ` set (entries m)) (map fst (idb w))"
        pf "w\<lparr> idb := D2 \<rparr>"] nofault
    by (simp only: ks) (simp add: D4)
  have us: "filter (\<lambda>request. derivedPath pf request \<notin> path ` set (entries m)) (map fst (cache w)) = []"
    using urls by (auto simp: filter_empty_conv)
  have put: "idbPut pf ?sr (w\<lparr> idb := rest \<rparr>) = Inr w"
    using nofault kr by (simp add: idbPut_def sentinel_record_def update_fresh_key idb)
  show ?thesis
    using put
    by (simp add: refreshCache_def getAllKeys_def initOfflineAssetIndex_def nofault p2 p3 p4 us
        sentinel_record_def Let_def)
qed

lemma demo_converged_synced: "synced demo_platform demo_index demo_converged"
  by (simp add: synced_def needs_update_def demo_index_def demo_converged_def initial_worker_def
      demo_platform_def startsWith_def derivedPath_def slice_from_def slice_index_def sentinel_record_def
      IDB_KEY_OFFLINE_INDEX_def)

text \<open>
  C7. When reading the keys of the store fails, the claim wants the store cleared and
  the cycle to go on as from an empty index. The cycle instead logs the error and never
  settles: the store keeps its records, and the promise kept in
  \<open>refreshCachePromise\<close> is never cleared.
\<close>

theorem keys_read_failure_hangs:
  "idb_fails keys_fault_platform OpGetAllKeys
   \<and> refreshCache keys_fault_platform (Some demo_index) False demo_converged
       = (Pending, console_error ''Failed to retrieve known asset entries:'' demo_converged)
   \<and> idb (snd (refreshCache keys_fault_platform (Some demo_index) False demo_converged))
       = idb demo_converged
   \<and> refreshCachePromise
        (settle keys_fault_platform
           (snd (synchronizedRefreshCache (Some demo_index) False demo_converged))) = Some 0"
proof -
  have f: "idb_fails keys_fault_platform OpGetAllKeys" "\<not> idb_fails keys_fault_platform OpOpen"
    by (simp_all add: keys_fault_platform_def demo_platform_def startsWith_def)
  have r: "refreshCache keys_fault_platform (Some demo_index) False v
             = (Pending, console_error ''Failed to retrieve known asset entries:'' v)" for v
    by (simp add: refreshCache_def getAllKeys_def event_source_def initOfflineAssetIndex_def f)
  have i: "refreshCachePromise demo_converged = None" "promises demo_converged = 0"
    "running demo_converged = []"
    by (simp_all add: demo_converged_def initial_worker_def)
  show ?thesis
    by (simp add: f r console_error_def settle_def synchronizedRefreshCache_def i Let_def)
qed

lemma updateOfflineAsset_keeps_cached_entry:
  "cached pf e w \<Longrightarrow> cached pf e (snd (updateOfflineAsset pf y w))"
  unfolding cached_def by (rule updateOfflineAsset_keeps_cached)

lemma updateOfflineAsset_all_done:
  assumes "promise_all (updateOfflineAsset pf) es w = (None, [], w')"
    and "distinct (map path es)"
    and "\<forall>e \<in> set es. \<not> needs_update e w \<longrightarrow> cached pf e w"
  shows "\<forall>e \<in> set es. \<not> needs_update e w' \<and> cached pf e w'"
  using assms
proof (induction es arbitrary: w)
  case Nil
  then show ?case by simp
next
  case (Cons x xs)
  from Cons.prems(1) obtain w1 where
    t: "updateOfflineAsset pf x w = (None, w1)"
    and p: "promise_all (updateOfflineAsset pf) xs w1 = (None, [], w')"
    by (rule promise_all_Cons_None)
  from Cons.prems(2) have dx: "\<And>y. y \<in> set xs \<Longrightarrow> path y \<noteq> path x"
    by (metis distinct.simps(2) image_eqI list.simps(9) set_map)
  from Cons.prems(2) have d: "distinct (map path xs)"
    by simp
  have pre: "\<forall>e \<in> set xs. \<not> needs_update e w1 \<longrightarrow> cached pf e w1"
  proof (intro ballI impI)
    fix e assume e: "e \<in> set xs" and n: "\<not> needs_update e w1"
    from dx [OF e] have "path x \<noteq> path e" by simp
    from updateOfflineAsset_other_entry [OF this, of pf w] t n
    have "\<not> needs_update e w" by simp
    with Cons.prems(3) e have "cached pf e w" by simp
    from updateOfflineAsset_keeps_cached_entry [OF this, of x] t show "cached pf e w1" by simp
  qed
  from Cons.IH [OF p d pre] have tail: "\<forall>e \<in> set xs. \<not> needs_update e w' \<and> cached pf e w'" .
  have "\<not> needs_update x w1 \<and> cached pf x w1"
  proof (cases "needs_update x w")
    case True
    with updateOfflineAsset_done(1,2) [OF t] show ?thesis by simp
  next
    case False
    with updateOfflineAsset_done(3) [OF t] Cons.prems(3) show ?thesis by simp
  qed
  moreover have "\<not> needs_update x (snd (snd (promise_all (updateOfflineAsset pf) xs w1)))
                 \<and> cached pf x (snd (snd (promise_all (updateOfflineAsset pf) xs w1)))"
    if "\<not> needs_update x w1 \<and> cached pf x w1"
  proof (rule promise_all_preserves [where P = "\<lambda>v. \<not> needs_update x v \<and> cached pf x v"])
    fix y v assume "y \<in> set xs" "\<not> needs_update x v \<and> cached pf x v"
    then show "\<not> needs_update x (snd (updateOfflineAsset pf y v))
               \<and> cached pf x (snd (updateOfflineAsset pf y v))"
      using dx [of y] by (simp add: updateOfflineAsset_other_entry updateOfflineAsset_keeps_cached_entry)
  qed (rule that)
  ultimately have "\<not> needs_update x w' \<and> cached pf x w'"
    using p by simp
  with tail show ?case by simp
qed

lemma updateOfflineAsset_keys:
  "fst ` set (idb (snd (updateOfflineAsset pf x v))) \<subseteq> insert (path x) (fst ` set (idb v))"
proof -
  from updateOfflineAsset_local(1) [of pf x v]
  consider "idb (snd (updateOfflineAsset pf x v)) = idb v"
    | "idb (snd (updateOfflineAsset pf x v)) = AList.update (path x) (stored x) (idb v)"
    by (rule disjE)
  then show ?thesis
  proof cases
    case 1
    then show ?thesis by (simp only: subset_insertI)
  next
    case 2
    then show ?thesis by (simp only: update_keys_insert order_refl)
  qed
qed

lemma updateOfflineAsset_all_keys:
  "fst ` set (idb (snd (snd (promise_all (updateOfflineAsset pf) es w))))
     \<subseteq> fst ` set (idb w) \<union> path ` set es"
proof (induction es arbitrary: w)
  case Nil
  show ?case by simp
next
  case (Cons x xs)
  obtain r1 w1 where t: "updateOfflineAsset pf x w = (r1, w1)"
    by (cases "updateOfflineAsset pf x w")
  obtain rs unfinished w2 where
    p: "promise_all (updateOfflineAsset pf) xs w1 = (rs, unfinished, w2)"
    by (rule prod_cases3)
  from updateOfflineAsset_keys [of pf x w] t
  have 1: "fst ` set (idb w1) \<subseteq> insert (path x) (fst ` set (idb w))" by simp
  from Cons.IH [of w1] p
  have 2: "fst ` set (idb w2) \<subseteq> fst ` set (idb w1) \<union> path ` set xs" by simp
  have 3: "path ` set (x # xs) = insert (path x) (path ` set xs)" by simp
  from 1 2 have "fst ` set (idb w2) \<subseteq> fst ` set (idb w) \<union> insert (path x) (path ` set xs)"
    by blast
  moreover from 1 have "fst ` set (idb w1) \<subseteq> fst ` set (idb w) \<union> insert (path x) (path ` set xs)"
    by blast
  ultimately show ?case using t p 3 by (cases r1) simp_all
qed

lemma refreshCache_fulfilled_form:
  assumes nofault: "\<forall>op. \<not> idb_fails pf op"
    and ok: "refreshCache pf (Some m) db w = (Fulfilled, w')"
  obtains w3 where
    "promise_all (updateOfflineAsset pf) (entries m)
       (w\<lparr> idb := filter (\<lambda>kv. fst kv \<notin> set (map fst (idb w))
                               \<or> map_of (cache w) (resolve pf (fst kv)) \<noteq> None) (idb w) \<rparr>)
     = (None, [], w3)"
    and "w' = w3\<lparr> idb := AList.update IDB_KEY_OFFLINE_INDEX (sentinel_record m)
                           (filter (\<lambda>kv. fst kv \<notin> set (filter (\<lambda>p. p \<notin> set (map path (entries m)))
                                                          (map fst (idb w)))) (idb w3)),
                  cache := filter (\<lambda>kv. fst kv \<notin> set (filter (\<lambda>request.
                                       derivedPath pf request \<notin> set (map path (entries m)))
                                     (map fst (cache w3)))) (cache w3) \<rparr>"
proof -
  define w2 where "w2 = w\<lparr> idb := filter (\<lambda>kv. fst kv \<notin> set (map fst (idb w))
                               \<or> map_of (cache w) (resolve pf (fst kv)) \<noteq> None) (idb w) \<rparr>"
  have p2: "promise_all (pruneMissing pf) (map fst (idb w)) w = (None, [], w2)"
    unfolding w2_def by (rule pruneMissing_all_closed) (simp add: nofault)
  obtain r3 unfinished w3 where
    u: "promise_all (updateOfflineAsset pf) (entries m) w2 = (r3, unfinished, w3)"
    by (rule prod_cases3)
  have p4: "promise_all (deleteObsolete pf) ks v = (None, [], v\<lparr> idb := filter (\<lambda>kv. fst kv \<notin> set ks) (idb v) \<rparr>)"
    for ks v
    by (rule deleteObsolete_all_closed) (simp add: nofault)
  from ok have r3: "r3 = None"
    and w': "w' = w3\<lparr> idb := AList.update IDB_KEY_OFFLINE_INDEX (sentinel_record m)
                           (filter (\<lambda>kv. fst kv \<notin> set (filter (\<lambda>p. p \<notin> set (map path (entries m)))
                                                          (map fst (idb w)))) (idb w3)),
                  cache := filter (\<lambda>kv. fst kv \<notin> set (filter (\<lambda>request.
                                       derivedPath pf request \<notin> set (map path (entries m)))
                                     (map fst (cache w3)))) (cache w3) \<rparr>"
    unfolding refreshCache_def Let_def
    by (auto simp: getAllKeys_def initOfflineAssetIndex_def nofault p2 u p4 cacheDelete_all_closed
        idbPut_def sentinel_record_def split: option.splits if_splits)
  from u r3 have "unfinished = []"
    using promise_all_finished [of "updateOfflineAsset pf" "entries m" w2] by simp
  with u r3 w' show thesis unfolding w2_def by (intro that) simp_all
qed

text \<open>
  Every fulfilled cycle without IndexedDB faults ends in the converged state of its
  manifest, whatever the index and the cache held before.
\<close>

lemma refresh_establishes_synced:
  assumes d: "distinct (map path (entries m))"
    and s: "\<forall>x \<in> set (entries m). url_stable pf (path x)"
    and nofault: "\<forall>op. \<not> idb_fails pf op"
    and ok: "refreshCache pf (Some m) db w = (Fulfilled, w')"
  shows "synced pf m w'"
proof -
  let ?K = IDB_KEY_OFFLINE_INDEX
  let ?paths = "set (map path (entries m))"
  define D2 where "D2 = filter (\<lambda>kv. fst kv \<notin> set (map fst (idb w))
                               \<or> map_of (cache w) (resolve pf (fst kv)) \<noteq> None) (idb w)"
  define ks where "ks = filter (\<lambda>p. p \<notin> ?paths) (map fst (idb w))"
  from refreshCache_fulfilled_form [OF nofault ok] obtain w3 where
    u: "promise_all (updateOfflineAsset pf) (entries m) (w\<lparr> idb := D2 \<rparr>) = (None, [], w3)"
    and w': "w' = w3\<lparr> idb := AList.update ?K (sentinel_record m)
                              (filter (\<lambda>kv. fst kv \<notin> set ks) (idb w3)),
                  cache := filter (\<lambda>kv. fst kv \<notin> set (filter (\<lambda>request.
                                       derivedPath pf request \<notin> ?paths)
                                     (map fst (cache w3)))) (cache w3) \<rparr>"
    unfolding D2_def ks_def by blast
  define F where "F = filter (\<lambda>kv. fst kv \<notin> set ks) (idb w3)"
  define C where "C = filter (\<lambda>kv. fst kv \<notin> set (filter (\<lambda>request.
                         derivedPath pf request \<notin> ?paths) (map fst (cache w3)))) (cache w3)"
  have kp: "?K \<notin> ?paths"
  proof
    assume "?K \<in> ?paths"
    then obtain e where "e \<in> set (entries m)" "path e = ?K" by auto
    with s url_stable_not_sentinel [of pf "path e"] show False by auto
  qed
  have pre: "\<forall>e \<in> set (entries m). \<not> needs_update e (w\<lparr> idb := D2 \<rparr>) \<longrightarrow> cached pf e (w\<lparr> idb := D2 \<rparr>)"
  proof (intro ballI impI)
    fix e assume "e \<in> set (entries m)" and n: "\<not> needs_update e (w\<lparr> idb := D2 \<rparr>)"
    then obtain r where "map_of D2 (path e) = Some r"
      by (auto simp: needs_update_def)
    then have in2: "(path e, r) \<in> set D2" by (rule map_of_SomeD)
    then have "(path e, r) \<in> set (idb w)" by (simp add: D2_def)
    then have "path e \<in> set (map fst (idb w))" by force
    with in2 show "cached pf e (w\<lparr> idb := D2 \<rparr>)"
      by (simp add: D2_def cached_def)
  qed
  from updateOfflineAsset_all_done [OF u d pre]
  have upd: "\<not> needs_update e w3" "cached pf e w3" if "e \<in> set (entries m)" for e
    using that by simp_all
  have "fst ` set D2 \<subseteq> fst ` set (idb w)" by (auto simp: D2_def)
  with updateOfflineAsset_all_keys [of pf "entries m" "w\<lparr> idb := D2 \<rparr>"] u
  have keys3: "fst ` set (idb w3) \<subseteq> fst ` set (idb w) \<union> path ` set (entries m)"
    by auto
  have Fkeys: "fst kv \<in> ?paths" if "kv \<in> set F" for kv
  proof (rule ccontr)
    assume np: "fst kv \<notin> ?paths"
    from that have a: "kv \<in> set (idb w3)" and b: "fst kv \<notin> set ks" by (simp_all add: F_def)
    from a keys3 np have "fst kv \<in> set (map fst (idb w))" by force
    with np have "fst kv \<in> set ks" by (simp add: ks_def)
    with b show False by simp
  qed
  then have KF: "?K \<notin> fst ` set F" using kp by force
  have idb': "idb w' = F @ [(?K, sentinel_record m)]"
    by (simp add: w' F_def [symmetric] update_fresh_key [OF KF])
  have cache': "cache w' = C"
    by (simp add: w' C_def)
  have e1: "\<not> needs_update e w'" "map_of (cache w') (resolve pf (path e)) \<noteq> None"
    if e: "e \<in> set (entries m)" for e
  proof -
    from e have pe: "path e \<in> ?paths" by simp
    with kp have "path e \<noteq> ?K" by metis
    then have "map_of (idb w') (path e) = map_of F (path e)"
      by (auto simp: idb' map_add_def split: option.splits)
    also have "\<dots> = map_of (idb w3) (path e)"
      unfolding F_def using pe by (intro map_of_filter_key) (simp add: ks_def)
    finally show "\<not> needs_update e w'"
      using upd(1) [OF e] by (simp add: needs_update_def)
    from s e have "derivedPath pf (resolve pf (path e)) = path e"
      by (simp add: url_stable_def)
    with pe have "map_of C (resolve pf (path e)) = map_of (cache w3) (resolve pf (path e))"
      unfolding C_def by (intro map_of_filter_key) simp
    with upd(2) [OF e] show "map_of (cache w') (resolve pf (path e)) \<noteq> None"
      by (simp add: cache' cached_def)
  qed
  have e2: "k = ?K \<or> k \<in> ?paths" if "k \<in> set (map fst (idb w'))" for k
    using that Fkeys by (auto simp: idb')
  have e3: "derivedPath pf url \<in> ?paths" if "url \<in> set (map fst (cache w'))" for url
  proof -
    from that obtain b where "(url, b) \<in> set C" by (auto simp: cache')
    then have "(url, b) \<in> set (cache w3)"
      and "url \<notin> set (filter (\<lambda>request. derivedPath pf request \<notin> ?paths) (map fst (cache w3)))"
      by (simp_all add: C_def)
    moreover from this(1) have "url \<in> set (map fst (cache w3))" by force
    ultimately show ?thesis by simp
  qed
  show ?thesis
    unfolding synced_def
    using e1 e2 e3 kp KF by (simp add: idb')
qed

text \<open>
  When a cycle for a manifest has been fulfilled, on a platform without IndexedDB
  faults, a second cycle for the same manifest is fulfilled and leaves the worker exactly
  as the first left it, provided that the paths of the manifest are distinct and left
  unchanged by URL resolution.
\<close>

lemma idempotence_stable_paths:
  assumes "distinct (map path (entries m))"
    and "\<forall>x \<in> set (entries m). url_stable pf (path x)"
    and "\<forall>op. \<not> idb_fails pf op"
    and "refreshCache pf (Some m) db w = (Fulfilled, w1)"
  shows "refreshCache pf (Some m) db' w1 = (Fulfilled, w1)"
  using refresh_establishes_synced [OF assms] assms(3) by (rule converged_state_is_fixed)

text \<open>
  C4. The claim fails on the manifest with the file \<open>a b.js\<close>. The first cycle from empty
  stores has recorded the digest of \<open>a b.js\<close> and evicted its body. The second cycle for
  the same manifest finds no cached body for the record and deletes it (lines 101 to
  109) before the digests are compared, so the update task fetches \<open>a b.js\<close> again: the
  second run is fulfilled with one more asset request in the log.
\<close>

theorem second_cycle_fetches_again:
  "refreshCache encoding_platform (Some spaced_index) False initial_worker
     = (Fulfilled, spaced_first)
   \<and> \<not> needs_update \<lparr> hash = ''11'', path = ''./a b.js'' \<rparr> spaced_first
   \<and> fst (refreshCache encoding_platform (Some spaced_index) False spaced_first) = Fulfilled
   \<and> network_log (snd (refreshCache encoding_platform (Some spaced_index) False spaced_first))
       = network_log spaced_first @ [AssetRequest ''/app/a%20b.js'']
   \<and> map fst (cache (snd (refreshCache encoding_platform (Some spaced_index) False spaced_first)))
       = [''/app/b.js'']"
proof -
  have n: "\<not> needs_update \<lparr> hash = ''11'', path = ''./a b.js'' \<rparr> spaced_first"
    by (simp add: needs_update_def spaced_first_def)
  have s: "refreshCache encoding_platform (Some spaced_index) False spaced_first
             = (Fulfilled,
                spaced_first
                  \<lparr> idb := [(''./b.js'', \<lparr> hash = ''22'', path = ''./b.js'', lastModified = None \<rparr>),
                            (''./a b.js'', \<lparr> hash = ''11'', path = ''./a b.js'', lastModified = None \<rparr>),
                            (''offline-index.txt'',
                             \<lparr> hash = ''d3'', path = ''offline-index.txt'',
                               lastModified = Some ''Monday'' \<rparr>)],
                    network_log := [AssetRequest ''/app/a%20b.js'', AssetRequest ''/app/b.js'',
                                    AssetRequest ''/app/a%20b.js''] \<rparr>)"
    by (simp add: cycle_defs encoding_platform_def percent_encode_def demo_platform_def
        spaced_index_def spaced_first_def initial_worker_def IDB_KEY_OFFLINE_INDEX_def)
  show ?thesis
    unfolding s spaced_first_cycle using n by (simp add: spaced_first_def)
qed

end
